theory Spec2Isabelle
  imports Main "HOL-Library.Word"
begin

unbundle bit_operations_syntax

section \<open>The machine: 32-bit words over a byte-addressed memory\<close>

text \<open>
  The allocator of \<^verbatim>\<open>malloclab/malloc_explicit.c\<close> keeps its tags in words of
  \<^verbatim>\<open>WSIZE = 4\<close> bytes and reads and writes them through \<^verbatim>\<open>*(size_t *)(p)\<close>:
  \<^verbatim>\<open>mm_init\<close> stores the prologue header at offset 4 and the first link at offset 8,
  and a block's footer lies four bytes below the next block's header. An access of
  more than four bytes would overwrite the neighbouring word each time, so \<^verbatim>\<open>size_t\<close>
  is the 32-bit unsigned type of the lab's 32-bit build (the file's header comment
  numbers the tag bits 31 .. 0), and a pointer is a 32-bit address, stored in the
  first four of the \<^verbatim>\<open>PSIZE = 8\<close> bytes the file reserves for it. Unsigned arithmetic
  wraps modulo \<open>2 ^ 32\<close>; memory is an array of bytes, a word being stored in four of
  them, least significant first.
\<close>

type_synonym word32 = "32 word"
type_synonym byte = "8 word"
type_synonym addr = "32 word"
type_synonym memory = "addr \<Rightarrow> byte"

abbreviation NULL :: addr where
  "NULL \<equiv> 0"

definition load32 :: "memory \<Rightarrow> addr \<Rightarrow> word32" where
  "load32 m p =
     ucast (m p) OR push_bit 8 (ucast (m (p + 1))) OR
     push_bit 16 (ucast (m (p + 2))) OR push_bit 24 (ucast (m (p + 3)))"

definition store32 :: "memory \<Rightarrow> addr \<Rightarrow> word32 \<Rightarrow> memory" where
  "store32 m p v =
     m(p := ucast v, p + 1 := ucast (drop_bit 8 v),
       p + 2 := ucast (drop_bit 16 v), p + 3 := ucast (drop_bit 24 v))"

section \<open>The allocator's state\<close>

text \<open>
  The process-wide state: the heap's bytes, the allocator's global \<^verbatim>\<open>heap_listp\<close>,
  and the two bounds of the heap region that the memory system keeps (the current
  break and the address the region may not grow beyond).
\<close>

record state =
  mem :: memory
  heap_listp :: addr
  mem_brk :: addr
  mem_max_addr :: addr

text \<open>
  Modelled from the spec: the Heap Region collaborator \<^verbatim>\<open>mem_sbrk\<close> (declared in
  \<^verbatim>\<open>memlib.h\<close>, its code is not among the sources). \<^verbatim>\<open>extend(nbytes)\<close> returns a
  pointer to \<^verbatim>\<open>nbytes\<close> of fresh memory appended to the current heap end, which is
  the old break, or fails when no more memory is available; \<open>None\<close> is the failure
  sentinel \<^verbatim>\<open>(void *)-1\<close>.
\<close>

definition mem_sbrk :: "state \<Rightarrow> word32 \<Rightarrow> (addr \<times> state) option" where
  "mem_sbrk s incr =
     (if unat (mem_brk s) + unat incr \<le> unat (mem_max_addr s)
      then Some (mem_brk s, s\<lparr>mem_brk := mem_brk s + incr\<rparr>)
      else None)"

section \<open>Constants and macros\<close>

definition WSIZE :: word32 where "WSIZE = 4"
definition DSIZE :: word32 where "DSIZE = 8"
definition PSIZE :: word32 where "PSIZE = 8"
definition OVERHEAD :: word32 where "OVERHEAD = 8"

definition MIN_macro :: "word32 \<Rightarrow> word32 \<Rightarrow> word32" where
  "MIN_macro x y = (if x > y then y else x)"

definition PACK :: "word32 \<Rightarrow> word32 \<Rightarrow> word32" where
  "PACK size' alloc = size' OR alloc"

definition GET :: "state \<Rightarrow> addr \<Rightarrow> word32" where
  "GET s p = load32 (mem s) p"

definition PUT :: "state \<Rightarrow> addr \<Rightarrow> word32 \<Rightarrow> state" where
  "PUT s p val = s\<lparr>mem := store32 (mem s) p val\<rparr>"

definition PUT_ADDR :: "state \<Rightarrow> addr \<Rightarrow> addr \<Rightarrow> state" where
  "PUT_ADDR s p val = s\<lparr>mem := store32 (mem s) p val\<rparr>"

definition GET_SIZE :: "state \<Rightarrow> addr \<Rightarrow> word32" where
  "GET_SIZE s p = GET s p AND NOT 7"

definition GET_ALLOC :: "state \<Rightarrow> addr \<Rightarrow> word32" where
  "GET_ALLOC s p = GET s p AND 1"

definition HDRP :: "addr \<Rightarrow> addr" where
  "HDRP bp = bp - WSIZE"

definition FTRP :: "state \<Rightarrow> addr \<Rightarrow> addr" where
  "FTRP s bp = bp + GET_SIZE s (HDRP bp) - DSIZE"

definition NXTP :: "addr \<Rightarrow> addr" where
  "NXTP bp = bp"

definition PRVP :: "addr \<Rightarrow> addr" where
  "PRVP bp = bp + PSIZE"

definition NEXT_BLKP :: "state \<Rightarrow> addr \<Rightarrow> addr" where
  "NEXT_BLKP s bp = bp + GET_SIZE s (bp - WSIZE)"

definition PREV_BLKP :: "state \<Rightarrow> addr \<Rightarrow> addr" where
  "PREV_BLKP s bp = bp - GET_SIZE s (bp - DSIZE)"

definition NEXT_BLKP_EX :: "state \<Rightarrow> addr \<Rightarrow> addr" where
  "NEXT_BLKP_EX s bp = GET s (NXTP bp)"

definition PREV_BLKP_EX :: "state \<Rightarrow> addr \<Rightarrow> addr" where
  "PREV_BLKP_EX s bp = GET s (PRVP bp)"

section \<open>The explicit free list\<close>

definition insertblock :: "state \<Rightarrow> addr \<Rightarrow> state" where
  "insertblock s bp =
     (let tmp = NEXT_BLKP_EX s (heap_listp s);
          s1 = PUT_ADDR s (NXTP bp) tmp;
          s2 = (if tmp \<noteq> NULL then PUT_ADDR s1 (PRVP tmp) bp else s1);
          s3 = PUT_ADDR s2 (PRVP bp) (heap_listp s2)
      in PUT_ADDR s3 (NXTP (heap_listp s3)) bp)"

definition deleteblock :: "state \<Rightarrow> addr \<Rightarrow> state" where
  "deleteblock s bp =
     (let nxt = NEXT_BLKP_EX s bp;
          prv = PREV_BLKP_EX s bp;
          s1 = (if nxt \<noteq> NULL then PUT_ADDR s (PRVP nxt) prv else s)
      in PUT_ADDR s1 (NXTP prv) nxt)"

section \<open>Initialisation\<close>

text \<open>
  \<^verbatim>\<open>mm_init\<close> returns \<open>-1\<close> when the memory system refuses the first 32 bytes (and has
  by then assigned the failure sentinel to \<^verbatim>\<open>heap_listp\<close>), and \<open>0\<close> otherwise.
\<close>

definition mm_init :: "state \<Rightarrow> int \<times> state" where
  "mm_init s =
     (case mem_sbrk s (4 * WSIZE + 2 * PSIZE) of
        None \<Rightarrow> (- 1, s\<lparr>heap_listp := - 1\<rparr>)
      | Some (p, s0) \<Rightarrow>
          (let s1 = PUT s0 p 0;
               s2 = PUT s1 (p + WSIZE) (PACK (OVERHEAD + 2 * PSIZE) 1);
               s3 = PUT_ADDR s2 (p + DSIZE) NULL;
               s4 = PUT_ADDR s3 (p + DSIZE + PSIZE) NULL;
               s5 = PUT s4 (p + DSIZE + 2 * PSIZE) (PACK (OVERHEAD + 2 * PSIZE) 1);
               s6 = PUT s5 (p + WSIZE + DSIZE + 2 * PSIZE) (PACK 0 1)
           in (0, s6\<lparr>heap_listp := p + DSIZE\<rparr>)))"

section \<open>Coalescing, heap extension, placement, search\<close>

definition coalesce :: "state \<Rightarrow> addr \<Rightarrow> addr \<times> state" where
  "coalesce s bp =
     (let prev_alloc = GET_ALLOC s (FTRP s (PREV_BLKP s bp));
          next_alloc = GET_ALLOC s (HDRP (NEXT_BLKP s bp));
          size' = GET_SIZE s (HDRP bp);
          (s1, bp1, size1) =
            (if prev_alloc = 0 then
               (let prv = PREV_BLKP s bp;
                    sz = size' + GET_SIZE s (HDRP prv);
                    sa = PUT s (FTRP s bp) (PACK sz 0);
                    sb = PUT sa (HDRP prv) (PACK sz 0)
                in (deleteblock sb prv, prv, sz))
             else (s, bp, size'));
          s2 =
            (if next_alloc = 0 then
               (let nxt = NEXT_BLKP s1 bp1;
                    sz = size1 + GET_SIZE s1 (HDRP nxt);
                    sa = deleteblock s1 nxt;
                    sb = PUT sa (HDRP bp1) (PACK sz 0)
                in PUT sb (FTRP sb bp1) (PACK sz 0))
             else s1)
      in (bp1, insertblock s2 bp1))"

definition extend_heap :: "state \<Rightarrow> word32 \<Rightarrow> addr \<times> state" where
  "extend_heap s words =
     (let size' = (if words mod 2 \<noteq> 0 then (words + 1) * WSIZE else words * WSIZE)
      in case mem_sbrk s size' of
           None \<Rightarrow> (NULL, s)
         | Some (bp, s0) \<Rightarrow>
             (let s1 = PUT s0 (HDRP bp) (PACK size' 0);
                  s2 = PUT s1 (FTRP s1 bp) (PACK size' 0);
                  s3 = PUT s2 (HDRP (NEXT_BLKP s2 bp)) (PACK 0 1)
              in coalesce s3 bp))"

definition place :: "state \<Rightarrow> addr \<Rightarrow> word32 \<Rightarrow> state" where
  "place s bp asize =
     (let csize = GET_SIZE s (HDRP bp);
          s0 = deleteblock s bp
      in if csize - asize \<ge> DSIZE + 2 * PSIZE + OVERHEAD then
           (let s1 = PUT s0 (HDRP bp) (PACK asize 1);
                s2 = PUT s1 (FTRP s1 bp) (PACK asize 1);
                bp' = NEXT_BLKP s2 bp;
                s3 = PUT s2 (HDRP bp') (PACK (csize - asize) 0);
                s4 = PUT s3 (FTRP s3 bp') (PACK (csize - asize) 0)
            in insertblock s4 bp')
         else
           (let s1 = PUT s0 (HDRP bp) (PACK csize 1)
            in PUT s1 (FTRP s1 bp) (PACK csize 1)))"

text \<open>
  The first-fit search (\<^verbatim>\<open>NEXT_FIT\<close> is not defined in the file) follows the list's
  forward links until it meets \<^verbatim>\<open>NULL\<close>. On a list that closes into a cycle of blocks
  that are all too small it never returns: that is the value \<open>None\<close>.
\<close>

partial_function (option) find_fit_loop :: "state \<Rightarrow> word32 \<Rightarrow> addr \<Rightarrow> addr option" where
  "find_fit_loop s asize bp =
     (if bp = NULL then Some NULL
      else if asize \<le> GET_SIZE s (HDRP bp) then Some bp
      else find_fit_loop s asize (NEXT_BLKP_EX s bp))"

declare find_fit_loop.simps [code]

definition find_fit :: "state \<Rightarrow> word32 \<Rightarrow> addr option" where
  "find_fit s asize = find_fit_loop s asize (NEXT_BLKP_EX s (heap_listp s))"

section \<open>The public operations\<close>

text \<open>
  \<^verbatim>\<open>mm_malloc\<close> (line 143) and \<^verbatim>\<open>mm_realloc\<close> (line 176) both start by computing
  \<^verbatim>\<open>realSize = DSIZE * ((size + OVERHEAD + 2 * PSIZE + (DSIZE - 1)) / DSIZE)\<close>,
  in unsigned 32-bit arithmetic.
\<close>

definition realSize_of :: "word32 \<Rightarrow> word32" where
  "realSize_of size' = DSIZE * ((size' + OVERHEAD + 2 * PSIZE + (DSIZE - 1)) div DSIZE)"

definition mm_malloc :: "state \<Rightarrow> word32 \<Rightarrow> (addr \<times> state) option" where
  "mm_malloc s size' =
     (if size' = 0 then Some (NULL, s)
      else
        (let realSize = realSize_of size'
         in case find_fit s realSize of
              None \<Rightarrow> None
            | Some bp \<Rightarrow>
                if bp \<noteq> NULL then Some (bp, place s bp realSize)
                else
                  (let (bp', s1) = extend_heap s (realSize div WSIZE)
                   in if bp' = NULL then Some (NULL, s1)
                      else Some (bp', place s1 bp' realSize))))"

definition mm_free :: "state \<Rightarrow> addr \<Rightarrow> state" where
  "mm_free s bp =
     (if GET_ALLOC s (HDRP bp) = 0 then s
      else
        (let s1 = PUT s (HDRP bp) (GET_SIZE s (HDRP bp));
             s2 = PUT s1 (FTRP s1 bp) (GET_SIZE s1 (HDRP bp))
         in snd (coalesce s2 bp)))"

text \<open>
  \<^verbatim>\<open>memcpy(dst, src, n)\<close> on ranges that do not overlap: the \<open>n\<close> bytes from \<open>dst\<close> on
  become the \<open>n\<close> bytes from \<open>src\<close> on.
\<close>

definition memcpy :: "state \<Rightarrow> addr \<Rightarrow> addr \<Rightarrow> word32 \<Rightarrow> state" where
  "memcpy s dst src n =
     s\<lparr>mem := (\<lambda>a. if a - dst < n then mem s (src + (a - dst)) else mem s a)\<rparr>"

text \<open>
  Line 180 of the source calls \<^verbatim>\<open>free\<close>, the C library's function declared by
  \<^verbatim>\<open>stdlib.h\<close>, not \<^verbatim>\<open>mm_free\<close>. The library knows nothing of this allocator: the call
  reads and writes none of the allocator's state, which the model hands back as it is.
\<close>

definition libc_free :: "state \<Rightarrow> addr \<Rightarrow> state" where
  "libc_free s ptr = s"

definition mm_realloc :: "state \<Rightarrow> addr \<Rightarrow> word32 \<Rightarrow> (addr \<times> state) option" where
  "mm_realloc s ptr size' =
     (let realSize = realSize_of size'
      in if ptr = NULL then mm_malloc s realSize
         else if size' = 0 then Some (NULL, libc_free s ptr)
         else
           (let remainSize = GET_SIZE s (HDRP ptr) - realSize
            in if GET_SIZE s (HDRP ptr) \<ge> realSize then
                 (if remainSize \<ge> DSIZE + 2 * PSIZE + OVERHEAD then
                    (let s1 = PUT s (HDRP ptr) (PACK realSize 1);
                         s2 = PUT s1 (FTRP s1 ptr) (PACK realSize 1);
                         nxt = NEXT_BLKP s2 ptr;
                         s3 = PUT s2 (HDRP nxt) (PACK remainSize 0);
                         s4 = PUT s3 (FTRP s3 nxt) (PACK remainSize 0)
                     in Some (ptr, insertblock s4 nxt))
                  else Some (ptr, s))
               else
                 (let nxt = NEXT_BLKP s ptr
                  in if GET_ALLOC s (HDRP nxt) = 0 \<and> GET_SIZE s (HDRP nxt) \<ge> remainSize then
                       (let s0 = deleteblock s nxt;
                            totalSize = GET_SIZE s0 (HDRP ptr) + GET_SIZE s0 (HDRP nxt)
                        in if totalSize - realSize \<ge> DSIZE + 2 * PSIZE + OVERHEAD then
                             (let s1 = PUT s0 (HDRP ptr) (PACK realSize 1);
                                  s2 = PUT s1 (FTRP s1 ptr) (PACK realSize 1);
                                  nxt' = NEXT_BLKP s2 ptr;
                                  s3 = PUT s2 (HDRP nxt') (PACK (totalSize - realSize) 0);
                                  s4 = PUT s3 (FTRP s3 nxt') (PACK (totalSize - realSize) 0)
                              in Some (ptr, insertblock s4 nxt'))
                           else
                             (let s1 = PUT s0 (HDRP ptr) (PACK totalSize 1)
                              in Some (ptr, PUT s1 (FTRP s1 ptr) (PACK totalSize 1))))
                     else
                       (case mm_malloc s realSize of
                          None \<Rightarrow> None
                        | Some (bp, s1) \<Rightarrow>
                            if bp = NULL then Some (NULL, s1)
                            else
                              (let copySize = MIN_macro size' (GET_SIZE s1 (HDRP ptr));
                                   s2 = memcpy s1 bp ptr copySize
                               in Some (bp, mm_free s2 ptr))))))"

section \<open>The consistency checker\<close>

text \<open>
  What \<^verbatim>\<open>mm_checkheap\<close> prints, line by line. The two tests of the form
  \<^verbatim>\<open>(a != b) || !c\<close> are written as the short-circuit evaluation runs them: the
  second operand is looked at only when the first is false.
\<close>

datatype report =
    Heap_line addr
  | Block_line addr word32 bool word32 bool
  | EOL_line addr
  | Bad_prologue_header
  | Bad_epilogue_header
  | Not_doubleword_aligned addr
  | Header_does_not_match_footer

definition printblock :: "state \<Rightarrow> addr \<Rightarrow> report list" where
  "printblock s bp =
     (let hsize = GET_SIZE s (HDRP bp);
          halloc = GET_ALLOC s (HDRP bp);
          fsize = GET_SIZE s (FTRP s bp);
          falloc = GET_ALLOC s (FTRP s bp)
      in if hsize = 0 then [EOL_line bp]
         else [Block_line bp hsize (halloc \<noteq> 0) fsize (falloc \<noteq> 0)])"

definition checkblock :: "state \<Rightarrow> addr \<Rightarrow> report list" where
  "checkblock s bp =
     (if bp mod 8 \<noteq> 0 then [Not_doubleword_aligned bp] else []) @
     (if GET s (HDRP bp) \<noteq> GET s (FTRP s bp) then [Header_does_not_match_footer] else [])"

text \<open>
  The walk over all blocks stops at the first header of size zero; it returns what it
  printed and the block pointer it stopped at. On a heap whose sizes lead it around the
  address space for ever it does not return (\<open>None\<close>).
\<close>

partial_function (option) checkheap_loop ::
  "state \<Rightarrow> bool \<Rightarrow> addr \<Rightarrow> (report list \<times> addr) option" where
  "checkheap_loop s verbose bp =
     (if GET_SIZE s (HDRP bp) > 0 then
        Option.bind (checkheap_loop s verbose (NEXT_BLKP s bp))
          (\<lambda>(out, bp'). Some ((if verbose then printblock s bp else []) @ checkblock s bp @ out, bp'))
      else Some ([], bp))"

declare checkheap_loop.simps [code]

definition mm_checkheap :: "state \<Rightarrow> bool \<Rightarrow> report list option" where
  "mm_checkheap s verbose =
     (case checkheap_loop s verbose (heap_listp s) of
        None \<Rightarrow> None
      | Some (out, bp) \<Rightarrow>
          Some ((if verbose then [Heap_line (heap_listp s)] else []) @
                (if GET_SIZE s (HDRP (heap_listp s)) \<noteq> DSIZE then [Bad_prologue_header]
                 else if GET_ALLOC s (HDRP (heap_listp s)) = 0 then [Bad_prologue_header]
                 else []) @
                checkblock s (heap_listp s) @
                out @
                (if verbose then printblock s bp else []) @
                (if GET_SIZE s (HDRP bp) \<noteq> 0 then [Bad_epilogue_header]
                 else if GET_ALLOC s (HDRP bp) = 0 then [Bad_epilogue_header]
                 else [])))"

section \<open>Well-formed heaps\<close>

text \<open>
  The layout the allocator works on, as the file's header comment draws it: after the
  prologue come the user blocks, each with a header and a footer that hold its size
  and its allocated bit, and then the epilogue header, just below the break.
  \<open>blocks_at s bp bs\<close> says that the blocks from the block pointer \<open>bp\<close> up to the
  epilogue are those of the list \<open>bs\<close> (size in bytes, allocated or not), in address
  order. A block has room for its two tags and its two list links.
\<close>

fun blocks_at :: "state \<Rightarrow> addr \<Rightarrow> (word32 \<times> bool) list \<Rightarrow> bool" where
  "blocks_at s bp [] = (GET s (HDRP bp) = PACK 0 1 \<and> bp = mem_brk s)"
| "blocks_at s bp ((sz, al) # bs) =
     (unat sz mod 8 = 0 \<and> 24 \<le> unat sz \<and> unat bp + unat sz \<le> unat (mem_brk s) \<and>
      GET s (HDRP bp) = PACK sz (if al then 1 else 0) \<and>
      GET s (bp + sz - DSIZE) = PACK sz (if al then 1 else 0) \<and>
      blocks_at s (bp + sz) bs)"

text \<open>The block pointers of the free blocks among them, in address order.\<close>

fun free_blocks :: "addr \<Rightarrow> (word32 \<times> bool) list \<Rightarrow> addr list" where
  "free_blocks bp [] = []"
| "free_blocks bp ((sz, al) # bs) =
     (if al then free_blocks (bp + sz) bs else bp # free_blocks (bp + sz) bs)"

text \<open>
  \<open>chain s prv fl\<close>: the forward links from \<open>prv\<close> on run through the blocks of \<open>fl\<close> in
  this order and end in \<^verbatim>\<open>NULL\<close>, and each block's backward link points at the one
  before it.
\<close>

fun chain :: "state \<Rightarrow> addr \<Rightarrow> addr list \<Rightarrow> bool" where
  "chain s prv [] = (NEXT_BLKP_EX s prv = NULL)"
| "chain s prv (bp # fl) =
     (bp \<noteq> NULL \<and> NEXT_BLKP_EX s prv = bp \<and> PREV_BLKP_EX s bp = prv \<and> chain s bp fl)"

text \<open>
  A well-formed heap with user blocks \<open>bs\<close> and free list \<open>fl\<close>: \<^verbatim>\<open>heap_listp\<close> is
  double-word aligned and points at the prologue of 24 bytes, the user blocks follow
  it, and the free list (the prologue is its head) holds exactly the free blocks,
  each once.
\<close>

definition heap_ok :: "state \<Rightarrow> (word32 \<times> bool) list \<Rightarrow> addr list \<Rightarrow> bool" where
  "heap_ok s bs fl =
     (unat (heap_listp s) mod 8 = 0 \<and> 8 \<le> unat (heap_listp s) \<and>
      unat (heap_listp s) + 24 \<le> unat (mem_brk s) \<and>
      GET s (HDRP (heap_listp s)) = PACK (OVERHEAD + 2 * PSIZE) 1 \<and>
      GET s (FTRP s (heap_listp s)) = PACK (OVERHEAD + 2 * PSIZE) 1 \<and>
      blocks_at s (heap_listp s + (OVERHEAD + 2 * PSIZE)) bs \<and>
      chain s (heap_listp s) fl \<and> distinct fl \<and>
      set fl = set (free_blocks (heap_listp s + (OVERHEAD + 2 * PSIZE)) bs))"

section \<open>Concrete heaps\<close>

text \<open>
  A memory system as its initialisation leaves it: a region of 20 MB of zeroed bytes
  from address \<open>0x100000\<close> on, the break at its start, and the allocator's global
  still \<^verbatim>\<open>NULL\<close>. \<open>heap0\<close> is the heap right after a successful \<^verbatim>\<open>mm_init\<close>.
\<close>

definition fresh :: state where
  "fresh = \<lparr>mem = (\<lambda>_. 0), heap_listp = NULL, mem_brk = 0x100000, mem_max_addr = 0x1500000\<rparr>"

definition heap0 :: state where
  "heap0 = snd (mm_init fresh)"

text \<open>
  The same memory system with room for the 32 bytes of \<^verbatim>\<open>mm_init\<close> and no more: it
  refuses every extension by a positive number of bytes from then on.
\<close>

definition tight :: state where
  "tight = fresh\<lparr>mem_max_addr := 0x100020\<rparr>"

text \<open>One block: \<^verbatim>\<open>p = mm_malloc(1)\<close> on the initial heap.\<close>

definition one_block :: "addr \<times> state" where
  "one_block = the (mm_malloc heap0 1)"

text \<open>The heap with this one block, in a memory system that is now exhausted.\<close>

definition one_block_full :: state where
  "one_block_full = (snd one_block)\<lparr>mem_max_addr := mem_brk (snd one_block)\<rparr>"

text \<open>
  Two blocks, the second freed again: \<^verbatim>\<open>p = mm_malloc(1); q = mm_malloc(1); mm_free(q)\<close>.
  The block \<open>p\<close> is then allocated and followed by the free block \<open>q\<close>.
\<close>

definition two_blocks :: "addr \<times> state" where
  "two_blocks = the (mm_malloc (snd one_block) 1)"

definition second_freed :: state where
  "second_freed = mm_free (snd two_blocks) (fst two_blocks)"

text \<open>
  A large block followed by a free one:
  \<^verbatim>\<open>p = mm_malloc(100); q = mm_malloc(1); mm_free(q)\<close>.
\<close>

definition large_block :: "addr \<times> state" where
  "large_block = the (mm_malloc heap0 100)"

definition large_then_small :: "addr \<times> state" where
  "large_then_small = the (mm_malloc (snd large_block) 1)"

definition large_then_free :: state where
  "large_then_free = mm_free (snd large_then_small) (fst large_then_small)"

text \<open>
  A block of 40 bytes whose caller has written two words into its payload:
  \<^verbatim>\<open>p = mm_malloc(16); ((unsigned *)p)[0] = 0x11111111; ((unsigned *)p)[2] = 0x22222222\<close>.
\<close>

definition written_block :: "addr \<times> state" where
  "written_block =
     (let (p, s) = the (mm_malloc heap0 16)
      in (p, PUT (PUT s p 0x11111111) (p + 8) 0x22222222))"

text \<open>A single free block of 56 bytes: \<^verbatim>\<open>p = mm_malloc(25); mm_free(p)\<close>.\<close>

definition block56 :: "addr \<times> state" where
  "block56 = the (mm_malloc heap0 25)"

definition free56 :: state where
  "free56 = mm_free (snd block56) (fst block56)"

text \<open>
  Two blocks of 48 bytes, both held by the caller: \<^verbatim>\<open>p = mm_malloc(24); q = mm_malloc(24)\<close>.
\<close>

definition held_block :: "addr \<times> state" where
  "held_block = the (mm_malloc heap0 24)"

definition held_pair :: "addr \<times> state" where
  "held_pair = the (mm_malloc (snd held_block) 24)"

text \<open>
  The first of them resized by a size whose rounding wraps around:
  \<^verbatim>\<open>p = mm_realloc(p, 0xFFFFFFE1)\<close>.
\<close>

definition wrapped_resize :: "addr \<times> state" where
  "wrapped_resize = the (mm_realloc (snd held_pair) (fst held_block) 0xFFFFFFE1)"

text \<open>
  The caller then stores four words into the 24 bytes it asked for at \<open>p\<close>, as a C
  program does through an \<^verbatim>\<open>unsigned *\<close> (the store of a 32-bit word is what the
  macro \<^verbatim>\<open>PUT\<close> is): \<^verbatim>\<open>a[0] = (unsigned)p + 12; a[2] = 56; a[3] = 0; a[5] = (unsigned)p\<close>.
\<close>

definition caller_stores :: state where
  "caller_stores =
     (let p = fst wrapped_resize; s = snd wrapped_resize
      in PUT (PUT (PUT (PUT s p (p + 12)) (p + 8) 56) (p + 12) 0) (p + 20) p)"

section \<open>Memory laws\<close>

lemma load32_store32_same: "load32 (store32 m p v) p = v"
proof -
  have d: "p + 1 \<noteq> p" "p + 2 \<noteq> p" "p + 3 \<noteq> p" "p + 2 \<noteq> p + 1" "p + 3 \<noteq> p + 1" "p + 3 \<noteq> p + 2"
    by simp_all
  have "bit (load32 (store32 m p v) p) n = bit v n" if "n < 32" for n
  proof -
    consider "n < 8" | "8 \<le> n" "n < 16" | "16 \<le> n" "n < 24" | "24 \<le> n"
      by linarith
    then show ?thesis
    proof cases
      case 1
      then show ?thesis unfolding load32_def store32_def using d that
        by (auto simp: bit_simps)
    next
      case 2
      then have "8 + (n - 8) = n" by simp
      then show ?thesis unfolding load32_def store32_def using d that 2
        by (auto simp: bit_simps)
    next
      case 3
      then have "16 + (n - 16) = n" by simp
      then show ?thesis unfolding load32_def store32_def using d that 3
        by (auto simp: bit_simps)
    next
      case 4
      then have "24 + (n - 24) = n" by simp
      then show ?thesis unfolding load32_def store32_def using d that 4
        by (auto simp: bit_simps)
    qed
  qed
  then show ?thesis by (intro bit_word_eqI) simp
qed

lemma far_apart:
  fixes d :: word32
  assumes "4 \<le> unat d" "unat d \<le> 4294967292"
  shows "d \<notin> {0, 1, 2, 3, - 1, - 2, - 3}"
proof -
  have "unat (- 1 :: word32) = 4294967295" "unat (- 2 :: word32) = 4294967294"
    "unat (- 3 :: word32) = 4294967293"
    by (simp_all add: unsigned_minus_1_eq_mask mask_eq_exp_minus_1)
  with assms show ?thesis by auto
qed

lemma store32_far:
  fixes p q :: addr
  assumes "q - p \<notin> {0, 1, 2, 3}"
  shows "store32 m p v q = m q"
proof -
  have "q \<noteq> p + k" if "k \<in> {0, 1, 2, 3}" for k
  proof
    assume "q = p + k"
    then have "q - p = k" by simp
    with assms that show False by auto
  qed
  from this [of 0] this [of 1] this [of 2] this [of 3] show ?thesis
    by (simp add: store32_def)
qed

lemma load32_store32_other:
  fixes p q :: addr
  assumes "4 \<le> unat (q - p)" "unat (q - p) \<le> 4294967292"
  shows "load32 (store32 m p v) q = load32 m q"
proof -
  have n: "q - p \<notin> {0, 1, 2, 3, - 1, - 2, - 3}"
    using assms by (rule far_apart)
  have "store32 m p v (q + k) = m (q + k)" if "k \<in> {0, 1, 2, 3}" for k
  proof (rule store32_far)
    have e: "q + k - p = (q - p) + k" by simp
    have "(q - p) + k \<notin> {0, 1, 2, 3}"
    proof
      assume a: "(q - p) + k \<in> {0, 1, 2, 3}"
      then obtain j where j: "j \<in> {0, 1, 2, 3}" "(q - p) + k = j" by blast
      then have "q - p = j - k" by (simp add: algebra_simps)
      with j(1) that n show False by auto
    qed
    with e show "q + k - p \<notin> {0, 1, 2, 3}" by metis
  qed
  from this [of 0] this [of 1] this [of 2] this [of 3] show ?thesis
    by (simp add: load32_def)
qed

lemma PUT_ADDR_eq_PUT: "PUT_ADDR s p v = PUT s p v"
  by (simp add: PUT_ADDR_def PUT_def)

lemma GET_PUT_same: "GET (PUT s p v) p = v"
  by (simp add: GET_def PUT_def load32_store32_same)

lemma GET_PUT_other:
  "4 \<le> unat (q - p) \<Longrightarrow> unat (q - p) \<le> 4294967292 \<Longrightarrow> GET (PUT s p v) q = GET s q"
  by (simp add: GET_def PUT_def load32_store32_other)

lemma PUT_fields:
  "heap_listp (PUT s p v) = heap_listp s"
  "mem_brk (PUT s p v) = mem_brk s"
  "mem_max_addr (PUT s p v) = mem_max_addr s"
  by (simp_all add: PUT_def)

lemma GET_update:
  "GET (s\<lparr>heap_listp := h\<rparr>) p = GET s p"
  "GET (s\<lparr>mem_brk := b\<rparr>) p = GET s p"
  by (simp_all add: GET_def)

lemma PUT_update:
  "PUT (s\<lparr>heap_listp := h\<rparr>) p v = (PUT s p v)\<lparr>heap_listp := h\<rparr>"
  "PUT (s\<lparr>mem_brk := b\<rparr>) p v = (PUT s p v)\<lparr>mem_brk := b\<rparr>"
  by (simp_all add: PUT_def)

lemma memcpy_fields:
  "heap_listp (memcpy s d r n) = heap_listp s"
  "mem_brk (memcpy s d r n) = mem_brk s"
  "mem_max_addr (memcpy s d r n) = mem_max_addr s"
  by (simp_all add: memcpy_def)

lemma unat_offset:
  fixes d k :: word32
  assumes "unat d \<le> 4294967292" "unat k \<le> 3"
  shows "unat (d + k) = unat d + unat k"
  using assms by (simp add: unat_word_ariths)

lemma GET_memcpy_outside:
  assumes "unat n \<le> unat (q - dst)" "unat (q - dst) \<le> 4294967292"
  shows "GET (memcpy s dst src n) q = GET s q"
proof -
  have "\<not> q + k - dst < n" if "k \<in> {0, 1, 2, 3}" for k
  proof -
    have k: "unat k \<le> 3" using that by auto
    have "unat (q + k - dst) = unat ((q - dst) + k)" by (simp add: algebra_simps)
    also have "\<dots> = unat (q - dst) + unat k" using assms(2) k by (rule unat_offset)
    finally show ?thesis using assms(1) by (simp add: word_less_nat_alt)
  qed
  from this [of 0] this [of 1] this [of 2] this [of 3] show ?thesis
    by (simp add: GET_def memcpy_def load32_def)
qed

lemma GET_memcpy_inside:
  assumes "unat (q - dst) + 4 \<le> unat n"
  shows "GET (memcpy s dst src n) q = GET s (src + (q - dst))"
proof -
  have a: "src + (q + k - dst) = src + (q - dst) + k" for k
    by (simp add: algebra_simps)
  have "q + k - dst < n" if "k \<in> {0, 1, 2, 3}" for k
  proof -
    have k: "unat k \<le> 3" using that by auto
    have "unat n < 2 ^ 32" using unsigned_less [of n] by simp
    with assms have b: "unat (q - dst) \<le> 4294967292" by simp
    have "unat (q + k - dst) = unat ((q - dst) + k)" by (simp add: algebra_simps)
    also have "\<dots> = unat (q - dst) + unat k" using b k by (rule unat_offset)
    finally show ?thesis using assms k by (simp add: word_less_nat_alt)
  qed
  from this [of 0] this [of 1] this [of 2] this [of 3] show ?thesis
    by (simp add: GET_def memcpy_def load32_def a)
qed

section \<open>Evaluating the allocator on concrete heaps\<close>

lemma GET_fresh: "GET (fresh\<lparr>mem_brk := b\<rparr>) p = 0" "GET fresh p = 0"
  by (simp_all add: fresh_def GET_def load32_def)

lemma fresh_fields:
  "heap_listp fresh = 0" "mem_brk fresh = 0x100000" "mem_max_addr fresh = 0x1500000"
  by (simp_all add: fresh_def)

lemmas macro_simps =
  WSIZE_def DSIZE_def PSIZE_def OVERHEAD_def PACK_def HDRP_def FTRP_def NXTP_def PRVP_def
  NEXT_BLKP_def PREV_BLKP_def NEXT_BLKP_EX_def PREV_BLKP_EX_def GET_SIZE_def GET_ALLOC_def
  MIN_macro_def realSize_of_def

lemmas eval_simps =
  macro_simps PUT_ADDR_eq_PUT GET_PUT_same GET_PUT_other PUT_fields GET_update PUT_update
  GET_fresh fresh_fields memcpy_fields GET_memcpy_outside GET_memcpy_inside Let_def
  mem_sbrk_def insertblock_def deleteblock_def coalesce_def extend_heap_def place_def
  find_fit_def find_fit_loop.simps mm_malloc_def mm_free_def mm_init_def mm_realloc_def
  libc_free_def

lemma heap0_eq:
  "heap0 = (PUT (PUT (PUT (PUT (PUT (PUT fresh 0x100000 0) 0x100004 25) 0x100008 0) 0x100010 0)
     0x100018 25) 0x10001C 1)\<lparr>mem_brk := 0x100020, heap_listp := 0x100008\<rparr>"
  by (simp add: heap0_def eval_simps)

lemmas scenario_simps =
  one_block_def two_blocks_def second_freed_def large_block_def large_then_small_def
  large_then_free_def block56_def free56_def written_block_def heap0_eq

text \<open>The scenario that ends in a misaligned pointer, one call at a time.\<close>

lemma held_block_eq:
  "held_block = (0x100020,
     (PUT (PUT (PUT (PUT (PUT (PUT (PUT (PUT (PUT (PUT (PUT (PUT (PUT (PUT (PUT fresh
        0x100000 0) 0x100004 25) 0x100008 0) 0x100010 0) 0x100018 25) 0x10001C 1)
        0x10001C 48) 0x100048 48) 0x10004C 1) 0x100020 0) 0x100028 0x100008)
        0x100008 0x100020) 0x100008 0) 0x10001C 49) 0x100048 49)
     \<lparr>heap_listp := 0x100008, mem_brk := 0x100050\<rparr>)"
  by (simp add: held_block_def scenario_simps eval_simps)

lemma held_pair_eq:
  "held_pair = (0x100050,
     (PUT (PUT (PUT (PUT (PUT (PUT (PUT (PUT (PUT (PUT (PUT (PUT (PUT (PUT (PUT (PUT (
      PUT (PUT (PUT (PUT (PUT (PUT (PUT (PUT fresh
        0x100000 0) 0x100004 25) 0x100008 0) 0x100010 0) 0x100018 25) 0x10001C 1)
        0x10001C 48) 0x100048 48) 0x10004C 1) 0x100020 0) 0x100028 0x100008)
        0x100008 0x100020) 0x100008 0) 0x10001C 49) 0x100048 49) 0x10004C 48)
        0x100078 48) 0x10007C 1) 0x100050 0) 0x100058 0x100008) 0x100008 0x100050)
        0x100008 0) 0x10004C 49) 0x100078 49)
     \<lparr>heap_listp := 0x100008, mem_brk := 0x100080\<rparr>)"
  by (simp add: held_pair_def held_block_eq eval_simps)

lemma wrapped_resize_eq:
  "wrapped_resize = (0x100020,
     (PUT (PUT (PUT (PUT (PUT (PUT (PUT (PUT (PUT (PUT (PUT (PUT (PUT (PUT (PUT (PUT (
      PUT (PUT (PUT (PUT (PUT (PUT (PUT (PUT (PUT (PUT (PUT (PUT (PUT (PUT (PUT fresh
        0x100000 0) 0x100004 25) 0x100008 0) 0x100010 0) 0x100018 25) 0x10001C 1)
        0x10001C 48) 0x100048 48) 0x10004C 1) 0x100020 0) 0x100028 0x100008)
        0x100008 0x100020) 0x100008 0) 0x10001C 49) 0x100048 49) 0x10004C 48)
        0x100078 48) 0x10007C 1) 0x100050 0) 0x100058 0x100008) 0x100008 0x100050)
        0x100008 0) 0x10004C 49) 0x100078 49) 0x10001C 1) 0x100018 1) 0x10001C 48)
        0x100048 48) 0x100020 0) 0x100028 0x100008) 0x100008 0x100020)
     \<lparr>heap_listp := 0x100008, mem_brk := 0x100080\<rparr>)"
  by (simp add: wrapped_resize_def held_pair_eq held_block_eq eval_simps)

lemma caller_stores_eq:
  "caller_stores =
     (PUT (PUT (PUT (PUT (PUT (PUT (PUT (PUT (PUT (PUT (PUT (PUT (PUT (PUT (PUT (PUT (
      PUT (PUT (PUT (PUT (PUT (PUT (PUT (PUT (PUT (PUT (PUT (PUT (PUT (PUT (PUT (PUT (
      PUT (PUT (PUT fresh
        0x100000 0) 0x100004 25) 0x100008 0) 0x100010 0) 0x100018 25) 0x10001C 1)
        0x10001C 48) 0x100048 48) 0x10004C 1) 0x100020 0) 0x100028 0x100008)
        0x100008 0x100020) 0x100008 0) 0x10001C 49) 0x100048 49) 0x10004C 48)
        0x100078 48) 0x10007C 1) 0x100050 0) 0x100058 0x100008) 0x100008 0x100050)
        0x100008 0) 0x10004C 49) 0x100078 49) 0x10001C 1) 0x100018 1) 0x10001C 48)
        0x100048 48) 0x100020 0) 0x100028 0x100008) 0x100008 0x100020) 0x100020 0x10002C)
        0x100028 56) 0x10002C 0) 0x100034 0x100020)
     \<lparr>heap_listp := 0x100008, mem_brk := 0x100080\<rparr>"
  by (simp add: caller_stores_def wrapped_resize_eq eval_simps)

section \<open>Alignment and framing of word accesses\<close>

lemma aligned_sub:
  fixes p q :: word32
  assumes "unat p mod 4 = 0" "unat q mod 4 = 0"
  shows "unat (q - p) mod 4 = 0"
proof -
  have "unat p < 4294967296" using unsigned_less [of p] by simp
  moreover have "unat (q - p) = (if unat p \<le> unat q then unat q - unat p
      else unat q + 4294967296 - unat p)"
    by (simp add: unat_sub_if')
  ultimately show ?thesis using assms by (auto split: if_splits)
qed

lemma aligned_far:
  fixes p q :: word32
  assumes "unat p mod 4 = 0" "unat q mod 4 = 0" "q \<noteq> p"
  shows "4 \<le> unat (q - p) \<and> unat (q - p) \<le> 4294967292"
proof -
  have m: "unat (q - p) mod 4 = 0"
    using assms(1,2) by (rule aligned_sub)
  have "q - p \<noteq> 0" using assms(3) by simp
  then have "unat (q - p) \<noteq> 0" by (simp add: unat_eq_0)
  moreover have "unat (q - p) < 4294967296" using unsigned_less [of "q - p"] by simp
  ultimately show ?thesis using m by presburger
qed

lemma GET_PUT_aligned:
  assumes "unat p mod 4 = 0" "unat q mod 4 = 0"
  shows "GET (PUT s p v) q = (if q = p then v else GET s q)"
  using aligned_far [OF assms] by (simp add: GET_PUT_same GET_PUT_other)


lemma realSize_of_unat: "\<exists>m. unat (realSize_of n) = 8 * m \<and> m < 536870912"
proof -
  define k where "k = (n + OVERHEAD + 2 * PSIZE + (DSIZE - 1)) div DSIZE"
  have "unat (realSize_of n) = (8 * unat k) mod 4294967296"
    by (simp add: realSize_of_def k_def DSIZE_def unat_word_ariths)
  also have "\<dots> = 8 * (unat k mod 536870912)"
    by (simp add: mult_mod_right)
  finally show ?thesis by (intro exI [of _ "unat k mod 536870912"]) simp
qed

lemma extend_size:
  "(if (realSize_of n div WSIZE) mod 2 \<noteq> 0 then (realSize_of n div WSIZE + 1) * WSIZE
    else (realSize_of n div WSIZE) * WSIZE) = realSize_of n"
proof -
  obtain m where m: "unat (realSize_of n) = 8 * m" "m < 536870912"
    using realSize_of_unat by blast
  have d: "unat (realSize_of n div WSIZE) = 2 * m"
    by (simp add: WSIZE_def unat_div m)
  then have "unat ((realSize_of n div WSIZE) mod 2) = 0"
    by (simp add: unat_mod)
  then have e: "(realSize_of n div WSIZE) mod 2 = 0"
    by (simp add: unat_eq_0)
  have "unat ((realSize_of n div WSIZE) * WSIZE) = (unat (realSize_of n div WSIZE) * 4) mod 4294967296"
    by (simp add: unat_word_ariths WSIZE_def)
  also have "\<dots> = 8 * m"
    using m(2) by (simp add: d)
  finally have "unat ((realSize_of n div WSIZE) * WSIZE) = 8 * m" .
  then have "(realSize_of n div WSIZE) * WSIZE = realSize_of n"
    using m(1) by (simp add: word_unat_eq_iff)
  with e show ?thesis by simp
qed

lemma GET_PUT_eq: "q - p = 0 \<Longrightarrow> GET (PUT s p v) q = v"
  by (simp add: GET_PUT_same)

lemmas heap_simps = PUT_ADDR_eq_PUT GET_PUT_eq GET_PUT_other PUT_fields GET_update PUT_update

lemma mm_init_heap:
  assumes "mm_init s0 = (0, s)"
  shows "NEXT_BLKP_EX s (heap_listp s) = NULL"
    and "GET s (HDRP (heap_listp s)) = PACK 24 1"
    and "GET s (HDRP (NEXT_BLKP s (heap_listp s))) = PACK 0 1"
  using assms
  by (auto simp: mm_init_def mem_sbrk_def Let_def macro_simps heap_simps split: if_splits)

section \<open>Facts about well-formed heaps\<close>

lemma GET_SIZE_aligned: "unat (GET_SIZE s p) mod 8 = 0"
proof -
  have "GET_SIZE s p AND 7 = 0"
    by (simp add: GET_SIZE_def word_bw_assocs)
  then have "take_bit 3 (GET_SIZE s p) = 0"
    by (simp add: take_bit_eq_mask mask_eq_exp_minus_1)
  then have "take_bit 3 (unat (GET_SIZE s p)) = 0"
    by (metis unsigned_take_bit_eq unsigned_0)
  then show ?thesis by (simp add: take_bit_eq_mod)
qed

lemma aligned8_sub:
  fixes p q :: word32
  assumes "unat p mod 8 = 0" "unat q mod 8 = 0"
  shows "unat (q - p) mod 8 = 0"
proof -
  have "unat p < 4294967296" using unsigned_less [of p] by simp
  moreover have "unat (q - p) = (if unat p \<le> unat q then unat q - unat p
      else unat q + 4294967296 - unat p)"
    by (simp add: unat_sub_if')
  ultimately show ?thesis using assms by (auto split: if_splits)
qed

lemma aligned8_word: "unat p mod 8 = 0 \<longleftrightarrow> (p :: word32) mod 8 = 0"
  by (simp add: word_unat_eq_iff unat_mod)

lemma unat_plus_no_wrap:
  fixes a b c :: word32
  assumes "unat a + unat b \<le> unat c"
  shows "unat (a + b) = unat a + unat b"
proof -
  have "unat c < 2 ^ 32" using unsigned_less [of c] by simp
  with assms show ?thesis by (simp add: unat_word_ariths)
qed

lemma free_blocks_aligned:
  "blocks_at s bp bs \<Longrightarrow> unat bp mod 8 = 0 \<Longrightarrow> b \<in> set (free_blocks bp bs) \<Longrightarrow>
     unat b mod 8 = 0"
proof (induction bs arbitrary: bp)
  case Nil
  then show ?case by simp
next
  case (Cons blk bs)
  obtain sz al where blk: "blk = (sz, al)" by (cases blk)
  from Cons.prems(1) blk have u: "unat (bp + sz) = unat bp + unat sz"
    using unat_plus_no_wrap [of bp sz "mem_brk s"] by simp
  from Cons.prems(1) blk have "unat sz mod 8 = 0" by simp
  with u Cons.prems(2) have a: "unat (bp + sz) mod 8 = 0" by presburger
  from Cons.prems(1) blk have "blocks_at s (bp + sz) bs" by simp
  from Cons.IH [OF this a] Cons.prems(2,3) blk show ?case
    by (auto split: if_splits)
qed

lemma blocks_end_aligned:
  "blocks_at s bp bs \<Longrightarrow> unat bp mod 8 = 0 \<Longrightarrow> unat (mem_brk s) mod 8 = 0"
proof (induction bs arbitrary: bp)
  case Nil
  then show ?case by simp
next
  case (Cons blk bs)
  obtain sz al where blk: "blk = (sz, al)" by (cases blk)
  from Cons.prems(1) blk have u: "unat (bp + sz) = unat bp + unat sz"
    using unat_plus_no_wrap [of bp sz "mem_brk s"] by simp
  from Cons.prems(1) blk have "unat sz mod 8 = 0" by simp
  with u Cons.prems(2) have a: "unat (bp + sz) mod 8 = 0" by presburger
  from Cons.prems(1) blk have "blocks_at s (bp + sz) bs" by simp
  from Cons.IH [OF this a] show ?case .
qed

lemma find_fit_loop_chain:
  "chain s prv fl \<Longrightarrow>
     \<exists>r. find_fit_loop s asize (NEXT_BLKP_EX s prv) = Some r \<and> (r = NULL \<or> r \<in> set fl)"
proof (induction fl arbitrary: prv)
  case Nil
  then show ?case by (simp add: find_fit_loop.simps)
next
  case (Cons bp fl)
  then have n: "NEXT_BLKP_EX s prv = bp" "bp \<noteq> NULL" "chain s bp fl" by simp_all
  show ?case
  proof (cases "asize \<le> GET_SIZE s (HDRP bp)")
    case True
    then show ?thesis using n by (simp add: find_fit_loop.simps)
  next
    case False
    from Cons.IH [OF n(3)] obtain r where
      "find_fit_loop s asize (NEXT_BLKP_EX s bp) = Some r" "r = NULL \<or> r \<in> set fl" by blast
    then show ?thesis using n False by (subst find_fit_loop.simps) auto
  qed
qed

lemma heap_ok_aligned:
  assumes "heap_ok s bs fl"
  shows "unat (heap_listp s) mod 8 = 0" and "unat (mem_brk s) mod 8 = 0"
    and "b \<in> set fl \<Longrightarrow> unat b mod 8 = 0"
proof -
  from assms show h: "unat (heap_listp s) mod 8 = 0" by (simp add: heap_ok_def)
  from assms have u: "unat (heap_listp s + (OVERHEAD + 2 * PSIZE)) = unat (heap_listp s) + 24"
    by (simp add: heap_ok_def macro_simps unat_plus_no_wrap [where c = "mem_brk s"])
  with h have a: "unat (heap_listp s + (OVERHEAD + 2 * PSIZE)) mod 8 = 0" by presburger
  from assms have b: "blocks_at s (heap_listp s + (OVERHEAD + 2 * PSIZE)) bs"
    by (simp add: heap_ok_def)
  from blocks_end_aligned [OF b a] show "unat (mem_brk s) mod 8 = 0" .
  show "unat b mod 8 = 0" if "b \<in> set fl"
    using free_blocks_aligned [OF b a] that assms by (simp add: heap_ok_def)
qed

lemma fst_coalesce:
  "fst (coalesce s bp) =
     (if GET_ALLOC s (FTRP s (PREV_BLKP s bp)) = 0 then PREV_BLKP s bp else bp)"
  by (simp add: coalesce_def Let_def split_def)

lemma PREV_BLKP_aligned: "unat bp mod 8 = 0 \<Longrightarrow> unat (PREV_BLKP s bp) mod 8 = 0"
  unfolding PREV_BLKP_def by (rule aligned8_sub [OF GET_SIZE_aligned])

lemma extend_heap_aligned:
  assumes "unat (mem_brk s) mod 8 = 0"
  shows "unat (fst (extend_heap s w)) mod 8 = 0"
proof (cases "mem_sbrk s (if w mod 2 \<noteq> 0 then (w + 1) * WSIZE else w * WSIZE)")
  case None
  then show ?thesis by (simp add: extend_heap_def Let_def)
next
  case (Some r)
  then obtain s0 where r: "r = (mem_brk s, s0)"
    by (auto simp: mem_sbrk_def split: if_splits)
  show ?thesis
    using Some assms unfolding r extend_heap_def Let_def
    by (simp add: fst_coalesce PREV_BLKP_aligned)
qed

lemma mm_malloc_aligned:
  assumes "heap_ok s bs fl"
  shows "\<exists>p s'. mm_malloc s n = Some (p, s') \<and> unat p mod 8 = 0"
proof (cases "n = 0")
  case True
  then show ?thesis by (simp add: mm_malloc_def)
next
  case False
  from assms have "chain s (heap_listp s) fl" by (simp add: heap_ok_def)
  from find_fit_loop_chain [OF this] obtain r where
    r: "find_fit s (realSize_of n) = Some r" "r = NULL \<or> r \<in> set fl"
    unfolding find_fit_def by blast
  show ?thesis
  proof (cases "r = NULL")
    case True
    obtain bp' s1 where e: "extend_heap s (realSize_of n div WSIZE) = (bp', s1)"
      by (cases "extend_heap s (realSize_of n div WSIZE)")
    have "unat bp' mod 8 = 0"
      using extend_heap_aligned [OF heap_ok_aligned(2) [OF assms], of "realSize_of n div WSIZE"] e
      by simp
    then show ?thesis using False r True e by (simp add: mm_malloc_def Let_def)
  next
    case nn: False
    with r(2) have "unat r mod 8 = 0" using heap_ok_aligned(3) [OF assms] by blast
    then show ?thesis using False r nn by (simp add: mm_malloc_def Let_def)
  qed
qed

lemma mm_realloc_aligned:
  assumes "heap_ok s bs fl" "unat ptr mod 8 = 0"
  shows "\<exists>p s'. mm_realloc s ptr n = Some (p, s') \<and> unat p mod 8 = 0"
proof -
  from mm_malloc_aligned [OF assms(1), of "realSize_of n"] obtain p s' where
    m: "mm_malloc s (realSize_of n) = Some (p, s')" "unat p mod 8 = 0" by auto
  then show ?thesis using assms(2)
    by (auto simp: mm_realloc_def Let_def)
qed

lemma mm_init_heap_ok:
  assumes "mm_init s0 = (0, s)" "unat (mem_brk s0) mod 8 = 0"
  shows "heap_ok s [] []"
proof -
  from assms(1) have b: "unat (mem_brk s0) + 32 \<le> unat (mem_max_addr s0)"
    by (auto simp: mm_init_def mem_sbrk_def macro_simps split: if_splits)
  have m: "unat (mem_max_addr s0) < 4294967296"
    using unsigned_less [of "mem_max_addr s0"] by simp
  have u: "unat (mem_brk s0 + 8) = unat (mem_brk s0) + 8"
    "unat (mem_brk s0 + 32) = unat (mem_brk s0) + 32"
    using b m by (simp_all add: unat_word_ariths)
  show ?thesis
    using assms b u
    by (auto simp: heap_ok_def mm_init_def mem_sbrk_def Let_def macro_simps heap_simps
        split: if_splits)
qed

section \<open>Failing searches and refused extensions\<close>

lemma GET_update_max: "GET (s\<lparr>mem_max_addr := b\<rparr>) p = GET s p"
  by (simp add: GET_def)

lemma PUT_update_max: "PUT (s\<lparr>mem_max_addr := b\<rparr>) p v = (PUT s p v)\<lparr>mem_max_addr := b\<rparr>"
  by (simp add: PUT_def)

lemma find_fit_empty: "NEXT_BLKP_EX s (heap_listp s) = NULL \<Longrightarrow> find_fit s asize = Some NULL"
  by (simp add: find_fit_def find_fit_loop.simps)

lemma extend_heap_refused:
  "mem_sbrk s (realSize_of n) = None \<Longrightarrow> extend_heap s (realSize_of n div WSIZE) = (NULL, s)"
  unfolding extend_heap_def Let_def extend_size by simp

lemma mm_malloc_refused:
  assumes "find_fit s (realSize_of n) = Some NULL" "mem_sbrk s (realSize_of n) = None"
  shows "mm_malloc s n = Some (NULL, s)"
  using assms by (simp add: mm_malloc_def Let_def extend_heap_refused)

lemma tight_init: "mm_init tight = (0, snd (mm_init tight))"
  by (simp add: tight_def mm_init_def mem_sbrk_def fresh_def macro_simps)

section \<open>Blocks and links of a well-formed heap\<close>

lemma aligned_and_7:
  fixes sz :: word32
  assumes "unat sz mod 8 = 0"
  shows "sz AND 7 = 0"
proof -
  have "unat (take_bit 3 sz) = take_bit 3 (unat sz)" by (simp add: unsigned_take_bit_eq)
  also have "\<dots> = unat sz mod 8" by (simp add: take_bit_eq_mod)
  finally have "unat (take_bit 3 sz) = 0" using assms by simp
  then have "take_bit 3 sz = 0" by (simp add: unat_eq_0)
  then show ?thesis by (simp add: take_bit_eq_mask mask_eq_exp_minus_1)
qed

lemma and_not_7:
  fixes sz :: word32
  assumes "sz AND 7 = 0"
  shows "sz AND NOT 7 = sz"
proof -
  have "sz = sz AND (7 OR NOT 7)" by simp
  also have "\<dots> = (sz AND 7) OR (sz AND NOT 7)" by (simp only: bit.conj_disj_distrib)
  finally show ?thesis using assms by simp
qed

lemma GET_SIZE_PACK:
  fixes sz :: word32
  assumes "unat sz mod 8 = 0"
  shows "PACK sz 1 AND NOT 7 = sz" and "PACK sz 0 AND NOT 7 = sz"
    and "PACK sz 1 AND 1 = 1" and "PACK sz 0 AND 1 = 0"
proof -
  note a = aligned_and_7 [OF assms]
  note b = and_not_7 [OF a]
  show "PACK sz 1 AND NOT 7 = sz" "PACK sz 0 AND NOT 7 = sz"
    using b by (simp_all add: PACK_def bit.conj_disj_distrib2)
  have "sz AND 1 = (sz AND 7) AND 1" by (simp add: and.assoc)
  then have c: "sz AND 1 = 0" using a by simp
  show "PACK sz 1 AND 1 = 1" "PACK sz 0 AND 1 = 0"
    using c by (simp_all add: PACK_def bit.conj_disj_distrib2)
qed

lemma PACK_free: "PACK sz 0 = sz"
  by (simp add: PACK_def)

lemma free_blocks_facts:
  "blocks_at s a bs \<Longrightarrow> b \<in> set (free_blocks a bs) \<Longrightarrow>
     unat a \<le> unat b \<and> GET s (HDRP b) = GET_SIZE s (HDRP b) \<and>
     24 \<le> unat (GET_SIZE s (HDRP b)) \<and>
     unat b + unat (GET_SIZE s (HDRP b)) \<le> unat (mem_brk s)"
proof (induction bs arbitrary: a)
  case Nil
  then show ?case by simp
next
  case (Cons blk bs)
  obtain sz al where blk: "blk = (sz, al)" by (cases blk)
  from Cons.prems(1) blk have u: "unat (a + sz) = unat a + unat sz"
    using unat_plus_no_wrap [of a sz "mem_brk s"] by simp
  from Cons.prems(1) blk have t: "blocks_at s (a + sz) bs" by simp
  show ?case
  proof (cases "b \<in> set (free_blocks (a + sz) bs)")
    case True
    from Cons.IH [OF t True] u show ?thesis by simp
  next
    case False
    with Cons.prems(2) blk have e: "b = a" "\<not> al" by (auto split: if_splits)
    from Cons.prems(1) blk e have h: "GET s (HDRP a) = sz" by (simp add: PACK_free)
    from Cons.prems(1) blk have "unat sz mod 8 = 0" by simp
    then have "sz AND NOT 7 = sz" by (intro and_not_7 aligned_and_7)
    with h have "GET_SIZE s (HDRP a) = sz" by (simp add: GET_SIZE_def)
    with Cons.prems(1) blk e h show ?thesis by simp
  qed
qed

lemma free_blocks_disjoint:
  "blocks_at s a bs \<Longrightarrow> b1 \<in> set (free_blocks a bs) \<Longrightarrow> b2 \<in> set (free_blocks a bs) \<Longrightarrow>
     b1 \<noteq> b2 \<Longrightarrow>
     unat b1 + unat (GET_SIZE s (HDRP b1)) \<le> unat b2 \<or>
     unat b2 + unat (GET_SIZE s (HDRP b2)) \<le> unat b1"
proof (induction bs arbitrary: a)
  case Nil
  then show ?case by simp
next
  case (Cons blk bs)
  obtain sz al where blk: "blk = (sz, al)" by (cases blk)
  from Cons.prems(1) blk have u: "unat (a + sz) = unat a + unat sz"
    using unat_plus_no_wrap [of a sz "mem_brk s"] by simp
  from Cons.prems(1) blk have t: "blocks_at s (a + sz) bs" by simp
  have hd: "unat a + unat (GET_SIZE s (HDRP a)) \<le> unat b"
    if "\<not> al" "b \<in> set (free_blocks (a + sz) bs)" for b
  proof -
    have "a \<in> set (free_blocks a (blk # bs))" using that(1) blk by simp
    from free_blocks_facts [OF Cons.prems(1) this] Cons.prems(1) blk that(1)
    have "GET_SIZE s (HDRP a) = sz" by (simp add: PACK_free)
    with free_blocks_facts [OF t that(2)] u show ?thesis by simp
  qed
  consider "b1 \<in> set (free_blocks (a + sz) bs)" "b2 \<in> set (free_blocks (a + sz) bs)"
    | "b1 = a" "\<not> al" "b2 \<in> set (free_blocks (a + sz) bs)"
    | "b2 = a" "\<not> al" "b1 \<in> set (free_blocks (a + sz) bs)"
    using Cons.prems(2,3,4) blk by (auto split: if_splits)
  then show ?case
  proof cases
    case 1
    from Cons.IH [OF t 1 Cons.prems(4)] show ?thesis .
  next
    case 2
    with hd show ?thesis by blast
  next
    case 3
    with hd show ?thesis by blast
  qed
qed

lemma chain_next:
  "chain s prv fl \<Longrightarrow> distinct fl \<Longrightarrow> b \<in> set fl \<Longrightarrow>
     NEXT_BLKP_EX s b \<noteq> b \<and> (NEXT_BLKP_EX s b = NULL \<or> NEXT_BLKP_EX s b \<in> set fl)"
proof (induction fl arbitrary: prv)
  case Nil
  then show ?case by simp
next
  case (Cons x fl)
  show ?case
  proof (cases "b = x")
    case True
    from Cons.prems have c: "chain s x fl" "x \<notin> set fl" "x \<noteq> NULL" by simp_all
    then show ?thesis using True by (cases fl) auto
  next
    case False
    with Cons.prems have "chain s x fl" "distinct fl" "b \<in> set fl" by simp_all
    from Cons.IH [OF this] show ?thesis by auto
  qed
qed

lemma chain_prev:
  "chain s prv fl \<Longrightarrow> b \<in> set fl \<Longrightarrow>
     PREV_BLKP_EX s b = prv \<or> PREV_BLKP_EX s b \<in> set fl"
proof (induction fl arbitrary: prv)
  case Nil
  then show ?case by simp
next
  case (Cons x fl)
  show ?case
  proof (cases "b = x")
    case True
    with Cons.prems show ?thesis by simp
  next
    case False
    with Cons.prems have "chain s x fl" "b \<in> set fl" by simp_all
    from Cons.IH [OF this] show ?thesis by auto
  qed
qed

lemma chain_head:
  "chain s prv fl \<Longrightarrow> NEXT_BLKP_EX s prv = NULL \<or>
     (NEXT_BLKP_EX s prv \<in> set fl \<and> PREV_BLKP_EX s (NEXT_BLKP_EX s prv) = prv)"
  by (cases fl) auto

section \<open>Unlinking and inserting a block\<close>

lemma unat_minus_no_wrap:
  fixes a b :: word32
  assumes "unat b \<le> unat a"
  shows "unat (a - b) = unat a - unat b"
  using assms by (simp add: unat_sub word_le_nat_alt)

lemma GET_PUT_unat:
  assumes "unat p mod 4 = 0" "unat q mod 4 = 0"
  shows "GET (PUT s p v) q = (if unat q = unat p then v else GET s q)"
  using GET_PUT_aligned [OF assms] by (simp add: word_unat_eq_iff)

lemma deleteblock_eq:
  "deleteblock s bp =
     PUT (if NEXT_BLKP_EX s bp \<noteq> NULL
          then PUT s (NEXT_BLKP_EX s bp + 8) (PREV_BLKP_EX s bp) else s)
       (PREV_BLKP_EX s bp) (NEXT_BLKP_EX s bp)"
  by (simp add: deleteblock_def Let_def PUT_ADDR_eq_PUT PRVP_def NXTP_def PSIZE_def)

lemma insertblock_eq:
  "insertblock s bp =
     PUT (PUT (if NEXT_BLKP_EX s (heap_listp s) \<noteq> NULL
               then PUT (PUT s bp (NEXT_BLKP_EX s (heap_listp s)))
                      (NEXT_BLKP_EX s (heap_listp s) + 8) bp
               else PUT s bp (NEXT_BLKP_EX s (heap_listp s)))
            (bp + 8) (heap_listp s))
       (heap_listp s) bp"
  by (simp add: insertblock_def Let_def PUT_ADDR_eq_PUT PRVP_def NXTP_def PSIZE_def PUT_fields)

lemma heap_listp_deleteblock: "heap_listp (deleteblock s bp) = heap_listp s"
  by (simp add: deleteblock_eq PUT_fields)

lemma heap_listp_insertblock: "heap_listp (insertblock s bp) = heap_listp s"
  by (simp add: insertblock_eq PUT_fields)

lemma insertblock_head:
  "NEXT_BLKP_EX (insertblock s bp) (heap_listp (insertblock s bp)) = bp"
  by (simp add: insertblock_eq PUT_fields NEXT_BLKP_EX_def NXTP_def GET_PUT_same)

lemma aligned_plus_8:
  fixes p :: word32
  assumes "unat p mod 8 = 0"
  shows "unat (p + 8) mod 4 = 0" and "unat p mod 4 = 0"
proof -
  have "unat (p + 8) mod 8 = (unat p + 8) mod 8"
    by (simp add: unat_word_ariths mod_mod_cancel)
  with assms show "unat (p + 8) mod 4 = 0" by presburger
  from assms show "unat p mod 4 = 0" by presburger
qed

text \<open>Reading a word that the list operations do not write.\<close>

lemma GET_deleteblock_other:
  assumes "unat (NEXT_BLKP_EX s bp) mod 8 = 0" "unat (PREV_BLKP_EX s bp) mod 8 = 0"
    and "unat q mod 4 = 0"
    and "NEXT_BLKP_EX s bp \<noteq> NULL \<longrightarrow> q \<noteq> NEXT_BLKP_EX s bp + 8"
    and "q \<noteq> PREV_BLKP_EX s bp"
  shows "GET (deleteblock s bp) q = GET s q"
proof (cases "NEXT_BLKP_EX s bp = NULL")
  case True
  then show ?thesis
    using assms(3,5) aligned_plus_8(2) [OF assms(2)]
    by (simp add: deleteblock_eq GET_PUT_aligned)
next
  case False
  then have "deleteblock s bp =
      PUT (PUT s (NEXT_BLKP_EX s bp + 8) (PREV_BLKP_EX s bp)) (PREV_BLKP_EX s bp) (NEXT_BLKP_EX s bp)"
    by (simp add: deleteblock_eq)
  then show ?thesis
    using False assms(3-5) aligned_plus_8(2) [OF assms(2)] aligned_plus_8(1) [OF assms(1)]
    by (simp add: GET_PUT_aligned)
qed

lemma GET_insertblock_other:
  assumes "unat (NEXT_BLKP_EX s (heap_listp s)) mod 8 = 0" "unat (heap_listp s) mod 8 = 0"
    and "unat bp mod 8 = 0" and "unat q mod 4 = 0"
    and "NEXT_BLKP_EX s (heap_listp s) \<noteq> NULL \<longrightarrow> q \<noteq> NEXT_BLKP_EX s (heap_listp s) + 8"
    and "q \<noteq> bp" "q \<noteq> bp + 8" "q \<noteq> heap_listp s"
  shows "GET (insertblock s bp) q = GET s q"
proof (cases "NEXT_BLKP_EX s (heap_listp s) = NULL")
  case True
  then have "insertblock s bp = PUT (PUT (PUT s bp NULL) (bp + 8) (heap_listp s)) (heap_listp s) bp"
    by (simp add: insertblock_eq)
  then show ?thesis
    using assms(4,6-8) aligned_plus_8 [OF assms(2)] aligned_plus_8 [OF assms(3)]
    by (simp add: GET_PUT_aligned)
next
  case False
  then have "insertblock s bp =
      PUT (PUT (PUT (PUT s bp (NEXT_BLKP_EX s (heap_listp s)))
        (NEXT_BLKP_EX s (heap_listp s) + 8) bp) (bp + 8) (heap_listp s)) (heap_listp s) bp"
    by (simp add: insertblock_eq)
  then show ?thesis
    using False assms(4-8) aligned_plus_8 [OF assms(1)] aligned_plus_8 [OF assms(2)]
      aligned_plus_8 [OF assms(3)]
    by (simp add: GET_PUT_aligned)
qed

text \<open>What a well-formed heap says about a block of its free list.\<close>

lemma heap_ok_free_block:
  assumes "heap_ok s bs fl" "b \<in> set fl"
  shows "unat b mod 8 = 0" and "unat (heap_listp s) + 24 \<le> unat b"
    and "GET s (HDRP b) = GET_SIZE s (HDRP b)" and "24 \<le> unat (GET_SIZE s (HDRP b))"
    and "unat b + unat (GET_SIZE s (HDRP b)) \<le> unat (mem_brk s)"
    and "b \<noteq> NULL"
proof -
  from assms(1) have u: "unat (heap_listp s + (OVERHEAD + 2 * PSIZE)) = unat (heap_listp s) + 24"
    using unat_plus_no_wrap [of "heap_listp s" "OVERHEAD + 2 * PSIZE" "mem_brk s"]
    by (simp add: heap_ok_def macro_simps)
  from assms have m: "b \<in> set (free_blocks (heap_listp s + (OVERHEAD + 2 * PSIZE)) bs)"
    by (simp add: heap_ok_def)
  from assms(1) have bl: "blocks_at s (heap_listp s + (OVERHEAD + 2 * PSIZE)) bs"
    by (simp add: heap_ok_def)
  note f = free_blocks_facts [OF bl m]
  show "unat b mod 8 = 0" using heap_ok_aligned(3) [OF assms] .
  show p: "unat (heap_listp s) + 24 \<le> unat b" using f u by simp
  show "GET s (HDRP b) = GET_SIZE s (HDRP b)" "24 \<le> unat (GET_SIZE s (HDRP b))"
    "unat b + unat (GET_SIZE s (HDRP b)) \<le> unat (mem_brk s)" using f by simp_all
  show "b \<noteq> NULL" using p by auto
qed

lemma heap_ok_disjoint:
  assumes "heap_ok s bs fl" "b1 \<in> set fl" "b2 \<in> set fl" "b1 \<noteq> b2"
  shows "unat b1 + unat (GET_SIZE s (HDRP b1)) \<le> unat b2 \<or>
         unat b2 + unat (GET_SIZE s (HDRP b2)) \<le> unat b1"
  using assms free_blocks_disjoint [of s "heap_listp s + (OVERHEAD + 2 * PSIZE)" bs b1 b2]
  by (simp add: heap_ok_def)

text \<open>The head of the free list once a block has been unlinked.\<close>

lemma head_after_deleteblock:
  assumes "heap_ok s bs fl" "bp \<in> set fl"
  shows "NEXT_BLKP_EX (deleteblock s bp) (heap_listp s) = NULL \<or>
         (NEXT_BLKP_EX (deleteblock s bp) (heap_listp s) \<in> set fl \<and>
          NEXT_BLKP_EX (deleteblock s bp) (heap_listp s) \<noteq> bp)"
proof -
  let ?hl = "heap_listp s" and ?nxt = "NEXT_BLKP_EX s bp" and ?prv = "PREV_BLKP_EX s bp"
  from assms(1) have c: "chain s ?hl fl" "distinct fl" by (simp_all add: heap_ok_def)
  note n = chain_next [OF c assms(2)]
  note p = chain_prev [OF c(1) assms(2)]
  note h = chain_head [OF c(1)]
  have hl8: "unat ?hl mod 8 = 0" using assms(1) by (simp add: heap_ok_def)
  have nxt8: "unat ?nxt mod 8 = 0" using n heap_ok_free_block(1) [OF assms(1)] by auto
  have prv8: "unat ?prv mod 8 = 0" using p hl8 heap_ok_free_block(1) [OF assms(1)] by auto
  have far: "?hl \<noteq> ?nxt + 8" if "?nxt \<noteq> NULL"
  proof -
    from n that have m: "?nxt \<in> set fl" by simp
    have "unat (?nxt + 8) = unat ?nxt + 8"
      using heap_ok_free_block(4,5) [OF assms(1) m]
        unat_plus_no_wrap [of ?nxt 8 "mem_brk s"] by simp
    with heap_ok_free_block(2) [OF assms(1) m] show ?thesis by auto
  qed
  show ?thesis
  proof (cases "?prv = ?hl")
    case True
    then have "deleteblock s bp =
        PUT (if ?nxt \<noteq> NULL then PUT s (?nxt + 8) ?hl else s) ?hl ?nxt"
      by (simp add: deleteblock_eq)
    then have "NEXT_BLKP_EX (deleteblock s bp) ?hl = ?nxt"
      by (simp add: NEXT_BLKP_EX_def NXTP_def GET_PUT_same)
    with n show ?thesis by auto
  next
    case False
    have "GET (deleteblock s bp) ?hl = GET s ?hl"
      using nxt8 prv8 aligned_plus_8(2) [OF hl8] far False
      by (intro GET_deleteblock_other) auto
    then have e: "NEXT_BLKP_EX (deleteblock s bp) ?hl = NEXT_BLKP_EX s ?hl"
      by (simp add: NEXT_BLKP_EX_def NXTP_def)
    from h False heap_ok_free_block(6) [OF assms] have "NEXT_BLKP_EX s ?hl \<noteq> bp" by auto
    with h e show ?thesis by auto
  qed
qed

section \<open>Placing a block\<close>

lemma place_split:
  assumes ok: "heap_ok s bs fl" and m: "bp \<in> set fl"
    and a8: "unat asize mod 8 = 0" and a0: "asize \<noteq> 0"
    and le: "asize \<le> GET_SIZE s (HDRP bp)"
    and split: "DSIZE + 2 * PSIZE + OVERHEAD \<le> GET_SIZE s (HDRP bp) - asize"
  defines "csize \<equiv> GET_SIZE s (HDRP bp)"
  defines "s' \<equiv> place s bp asize"
  shows "GET s' (HDRP bp) = PACK asize 1" and "GET s' (FTRP s' bp) = PACK asize 1"
    and "NEXT_BLKP s' bp = bp + asize"
    and "GET s' (HDRP (NEXT_BLKP s' bp)) = PACK (csize - asize) 0"
    and "GET s' (FTRP s' (NEXT_BLKP s' bp)) = PACK (csize - asize) 0"
    and "NEXT_BLKP_EX s' (heap_listp s') = NEXT_BLKP s' bp"
proof -
  let ?hl = "heap_listp s"
  define s0 where "s0 = deleteblock s bp"
  define tmp where "tmp = NEXT_BLKP_EX s0 ?hl"
  define H F H' F' r where "H = bp - 4" and "F = bp + asize - 8" and "H' = bp + asize - 4"
    and "F' = bp + csize - 8" and "r = bp + asize"
  define s1 where "s1 = PUT s0 H (PACK asize 1)"
  define s2 where "s2 = PUT s1 F (PACK asize 1)"
  define s3 where "s3 = PUT s2 H' (PACK (csize - asize) 0)"
  define s4 where "s4 = PUT s3 F' (PACK (csize - asize) 0)"
  note fb = heap_ok_free_block [OF ok m, folded csize_def]
  have hl8: "unat ?hl mod 8 = 0" using ok by (simp add: heap_ok_def)
  have c8: "unat csize mod 8 = 0" unfolding csize_def by (rule GET_SIZE_aligned)
  have brk: "unat (mem_brk s) < 4294967296" using unsigned_less [of "mem_brk s"] by simp
  \<comment> \<open>the sizes as numbers\<close>
  have ule: "unat asize \<le> unat csize" using le by (simp add: csize_def word_le_nat_alt)
  then have urem: "unat (csize - asize) = unat csize - unat asize"
    by (rule unat_minus_no_wrap)
  have "32 \<le> unat (csize - asize)"
    using split by (simp add: csize_def word_le_nat_alt macro_simps)
  with urem have big: "unat asize + 32 \<le> unat csize" by simp
  have "unat asize \<noteq> 0" using a0 by (simp add: unat_eq_0)
  with a8 have a: "8 \<le> unat asize" by presburger
  \<comment> \<open>the addresses as numbers\<close>
  have uH: "unat H = unat bp - 4"
    unfolding H_def using fb(2) unat_minus_no_wrap [of 4 bp] by simp
  have ur: "unat r = unat bp + unat asize"
    unfolding r_def using fb(5) ule unat_plus_no_wrap [of bp asize "mem_brk s"] by simp
  have uF: "unat F = unat bp + unat asize - 8"
    unfolding F_def r_def [symmetric] using ur a unat_minus_no_wrap [of 8 r] by simp
  have uH': "unat H' = unat bp + unat asize - 4"
    unfolding H'_def r_def [symmetric] using ur a unat_minus_no_wrap [of 4 r] by simp
  have uc: "unat (bp + csize) = unat bp + unat csize"
    using fb(5) unat_plus_no_wrap [of bp csize "mem_brk s"] by simp
  have uF': "unat F' = unat bp + unat csize - 8"
    unfolding F'_def using uc fb(4) unat_minus_no_wrap [of 8 "bp + csize"] by simp
  have ur8: "unat (r + 8) = unat bp + unat asize + 8"
    using ur fb(5) big unat_plus_no_wrap [of r 8 "mem_brk s"] by simp
  note u = uH ur uF uH' uF' ur8
  \<comment> \<open>alignment\<close>
  have al: "unat H mod 4 = 0" "unat F mod 4 = 0" "unat H' mod 4 = 0" "unat F' mod 4 = 0"
    "unat r mod 8 = 0" "unat ?hl mod 4 = 0"
    using u fb(1,2,4) a a8 c8 big hl8 by presburger+
  \<comment> \<open>the free list's head after the unlinking\<close>
  have hd: "tmp = NULL \<or> (tmp \<in> set fl \<and> tmp \<noteq> bp)"
    unfolding tmp_def s0_def by (rule head_after_deleteblock [OF ok m])
  have tmp8: "unat tmp mod 8 = 0" using hd heap_ok_free_block(1) [OF ok] by auto
  have utmp: "unat (tmp + 8) = unat tmp + 8 \<and>
      (unat tmp + 24 \<le> unat bp \<or> unat bp + unat csize \<le> unat tmp)" if "tmp \<noteq> NULL"
  proof -
    from hd that have t: "tmp \<in> set fl" "tmp \<noteq> bp" by auto
    note ft = heap_ok_free_block [OF ok t(1)]
    from heap_ok_disjoint [OF ok t(1) m t(2)] ft(4)
    have "unat tmp + 24 \<le> unat bp \<or> unat bp + unat csize \<le> unat tmp"
      by (auto simp: csize_def)
    moreover have "unat (tmp + 8) = unat tmp + 8"
      using ft(4,5) unat_plus_no_wrap [of tmp 8 "mem_brk s"] by simp
    ultimately show ?thesis by simp
  qed
  \<comment> \<open>the words written are pairwise different\<close>
  have ne: "H \<noteq> F" "H \<noteq> H'" "H \<noteq> F'" "F \<noteq> H'" "F \<noteq> F'" "H' \<noteq> F'"
    using u fb(2) a big by (auto simp: word_unat_eq_iff)
  have ne_r: "H \<noteq> r" "F \<noteq> r" "H' \<noteq> r" "F' \<noteq> r"
    "H \<noteq> r + 8" "F \<noteq> r + 8" "H' \<noteq> r + 8" "F' \<noteq> r + 8"
    using u fb(2) a big by (auto simp: word_unat_eq_iff)
  have ne_hl: "H \<noteq> ?hl" "F \<noteq> ?hl" "H' \<noteq> ?hl" "F' \<noteq> ?hl"
    using u fb(2) a big by (auto simp: word_unat_eq_iff)
  have ne_tmp: "H \<noteq> tmp + 8" "F \<noteq> tmp + 8" "H' \<noteq> tmp + 8" "F' \<noteq> tmp + 8"
    if "tmp \<noteq> NULL"
    using utmp [OF that] u fb(2) a big by (auto simp: word_unat_eq_iff)
  \<comment> \<open>what \<open>place\<close> does\<close>
  have rem8: "unat (csize - asize) mod 8 = 0" using urem a8 c8 ule by presburger
  have sz: "PACK asize 1 AND NOT 7 = asize" "PACK (csize - asize) 0 AND NOT 7 = csize - asize"
    using GET_SIZE_PACK(1) [OF a8] GET_SIZE_PACK(2) [OF rem8] by simp_all
  have g4: "GET s4 H = PACK asize 1" "GET s4 F = PACK asize 1"
    "GET s4 H' = PACK (csize - asize) 0" "GET s4 F' = PACK (csize - asize) 0"
    unfolding s4_def s3_def s2_def s1_def using al ne by (simp_all add: GET_PUT_aligned)
  have p1: "HDRP bp = H" "HDRP r = H'"
    by (simp_all add: HDRP_def WSIZE_def H_def H'_def r_def)
  have q1: "GET_SIZE s1 H = asize"
    using sz by (simp add: s1_def GET_SIZE_def GET_PUT_same)
  have p2: "FTRP s1 bp = F"
    by (simp add: FTRP_def p1 q1 DSIZE_def F_def)
  have q2: "GET_SIZE s2 H = asize"
    using al ne sz by (simp add: s2_def s1_def GET_SIZE_def GET_PUT_aligned)
  have p3: "NEXT_BLKP s2 bp = r"
    using q2 by (simp add: NEXT_BLKP_def WSIZE_def H_def r_def)
  have q3: "GET_SIZE s3 H' = csize - asize"
    using sz by (simp add: s3_def GET_SIZE_def GET_PUT_same)
  have p4: "FTRP s3 r = F'"
    unfolding FTRP_def p1 q3 by (simp add: DSIZE_def F'_def r_def)
  have cs: "GET_SIZE s H = csize" by (simp add: csize_def p1)
  have split': "DSIZE + 2 * PSIZE + OVERHEAD \<le> csize - asize"
    using split by (simp add: csize_def)
  have s': "s' = insertblock s4 r"
    unfolding s'_def place_def Let_def
    by (simp add: p1 cs split' s0_def [symmetric] s1_def [symmetric] p2 s2_def [symmetric] p3
        s3_def [symmetric] p4 s4_def [symmetric])
  \<comment> \<open>the insertion of the remainder leaves the four tags alone\<close>
  have hl4: "heap_listp s4 = ?hl"
    by (simp add: s4_def s3_def s2_def s1_def s0_def PUT_fields heap_listp_deleteblock)
  have "GET s4 ?hl = GET s0 ?hl"
    unfolding s4_def s3_def s2_def s1_def using al ne_hl by (simp add: GET_PUT_aligned)
  then have t4: "NEXT_BLKP_EX s4 (heap_listp s4) = tmp"
    by (simp add: hl4 tmp_def NEXT_BLKP_EX_def NXTP_def)
  have fr: "GET s' q = GET s4 q" if "q \<in> {H, F, H', F'}" for q
    unfolding s'
  proof (rule GET_insertblock_other)
    show "unat (NEXT_BLKP_EX s4 (heap_listp s4)) mod 8 = 0" using tmp8 by (simp add: t4)
    show "unat (heap_listp s4) mod 8 = 0" using hl8 by (simp add: hl4)
    show "unat r mod 8 = 0" using al by simp
    show "unat q mod 4 = 0" using that al by auto
    show "NEXT_BLKP_EX s4 (heap_listp s4) \<noteq> NULL \<longrightarrow> q \<noteq> NEXT_BLKP_EX s4 (heap_listp s4) + 8"
      unfolding t4 using that ne_tmp by auto
    show "q \<noteq> r" "q \<noteq> r + 8" using that ne_r by auto
    show "q \<noteq> heap_listp s4" unfolding hl4 using that ne_hl by auto
  qed
  have g: "GET s' H = PACK asize 1" "GET s' F = PACK asize 1"
    "GET s' H' = PACK (csize - asize) 0" "GET s' F' = PACK (csize - asize) 0"
    using g4 by (simp_all add: fr)
  have gs: "GET_SIZE s' H = asize" "GET_SIZE s' H' = csize - asize"
    using sz by (simp_all add: GET_SIZE_def g)
  have f1: "FTRP s' bp = F"
    unfolding FTRP_def p1 gs by (simp add: DSIZE_def F_def)
  have n1: "NEXT_BLKP s' bp = r"
    using gs by (simp add: NEXT_BLKP_def WSIZE_def H_def r_def)
  have f2: "FTRP s' r = F'"
    unfolding FTRP_def p1 gs by (simp add: DSIZE_def F'_def r_def)
  show "GET s' (HDRP bp) = PACK asize 1" by (simp add: p1 g)
  show "GET s' (FTRP s' bp) = PACK asize 1" by (simp add: f1 g)
  show "NEXT_BLKP s' bp = bp + asize" by (simp add: n1 r_def)
  show "GET s' (HDRP (NEXT_BLKP s' bp)) = PACK (csize - asize) 0" by (simp add: n1 p1 g)
  show "GET s' (FTRP s' (NEXT_BLKP s' bp)) = PACK (csize - asize) 0" by (simp add: n1 f2 g)
  show "NEXT_BLKP_EX s' (heap_listp s') = NEXT_BLKP s' bp"
    unfolding n1 unfolding s' by (rule insertblock_head)
qed

lemma place_whole:
  assumes ok: "heap_ok s bs fl" and m: "bp \<in> set fl"
    and nosplit: "\<not> DSIZE + 2 * PSIZE + OVERHEAD \<le> GET_SIZE s (HDRP bp) - asize"
  defines "csize \<equiv> GET_SIZE s (HDRP bp)"
  defines "s' \<equiv> place s bp asize"
  shows "GET s' (HDRP bp) = PACK csize 1" and "GET s' (FTRP s' bp) = PACK csize 1"
proof -
  define s0 where "s0 = deleteblock s bp"
  define H F' where "H = bp - 4" and "F' = bp + csize - 8"
  define s1 where "s1 = PUT s0 H (PACK csize 1)"
  note fb = heap_ok_free_block [OF ok m, folded csize_def]
  have c8: "unat csize mod 8 = 0" unfolding csize_def by (rule GET_SIZE_aligned)
  have uH: "unat H = unat bp - 4"
    unfolding H_def using fb(2) unat_minus_no_wrap [of 4 bp] by simp
  have uc: "unat (bp + csize) = unat bp + unat csize"
    using fb(5) unat_plus_no_wrap [of bp csize "mem_brk s"] by simp
  have uF': "unat F' = unat bp + unat csize - 8"
    unfolding F'_def using uc fb(4) unat_minus_no_wrap [of 8 "bp + csize"] by simp
  have al: "unat H mod 4 = 0" "unat F' mod 4 = 0"
    using uH uF' fb(1,2,4) c8 by presburger+
  have ne: "H \<noteq> F'" using uH uF' fb(2,4) by (auto simp: word_unat_eq_iff)
  have sz: "PACK csize 1 AND NOT 7 = csize" using GET_SIZE_PACK(1) [OF c8] by simp
  have p1: "HDRP bp = H" by (simp add: HDRP_def WSIZE_def H_def)
  have q1: "GET_SIZE s1 H = csize"
    using sz by (simp add: s1_def GET_SIZE_def GET_PUT_same)
  have p2: "FTRP s1 bp = F'"
    unfolding FTRP_def p1 q1 by (simp add: DSIZE_def F'_def)
  have cs: "GET_SIZE s H = csize" by (simp add: csize_def p1)
  have nosplit': "\<not> DSIZE + 2 * PSIZE + OVERHEAD \<le> csize - asize"
    using nosplit by (simp add: csize_def)
  have s': "s' = PUT s1 F' (PACK csize 1)"
    unfolding s'_def place_def Let_def
    by (simp add: p1 cs nosplit' s0_def [symmetric] s1_def [symmetric] p2)
  have g: "GET s' H = PACK csize 1" "GET s' F' = PACK csize 1"
    unfolding s' s1_def using al ne by (simp_all add: GET_PUT_aligned)
  have gs: "GET_SIZE s' H = csize" using sz by (simp add: GET_SIZE_def g)
  have f1: "FTRP s' bp = F'"
    unfolding FTRP_def p1 gs by (simp add: DSIZE_def F'_def)
  show "GET s' (HDRP bp) = PACK csize 1" by (simp add: p1 g)
  show "GET s' (FTRP s' bp) = PACK csize 1" by (simp add: f1 g)
qed

lemma find_fit_loop_fits:
  "chain s prv fl \<Longrightarrow> find_fit_loop s asize (NEXT_BLKP_EX s prv) = Some r \<Longrightarrow> r \<noteq> NULL \<Longrightarrow>
     r \<in> set fl \<and> asize \<le> GET_SIZE s (HDRP r)"
proof (induction fl arbitrary: prv)
  case Nil
  then show ?case by (simp add: find_fit_loop.simps)
next
  case (Cons bp fl)
  then have n: "NEXT_BLKP_EX s prv = bp" "bp \<noteq> NULL" "chain s bp fl" by simp_all
  show ?case
  proof (cases "asize \<le> GET_SIZE s (HDRP bp)")
    case True
    with Cons.prems(2) n show ?thesis by (simp add: find_fit_loop.simps)
  next
    case False
    with Cons.prems(2) n have "find_fit_loop s asize (NEXT_BLKP_EX s bp) = Some r"
      by (subst (asm) find_fit_loop.simps) simp
    from Cons.IH [OF n(3) this Cons.prems(3)] show ?thesis by simp
  qed
qed

section \<open>The checker on a well-formed heap\<close>

text \<open>
  On every well-formed heap the walk ends at the epilogue, every block passes the
  alignment and the header/footer test, and the epilogue test passes: the one line
  printed is the complaint about the prologue.
\<close>

lemma GET_SIZE_of_PACK:
  fixes sz :: word32
  assumes "unat sz mod 8 = 0" and "GET s p = PACK sz a" and "a = 0 \<or> a = 1"
  shows "GET_SIZE s p = sz" and "GET_ALLOC s p = a"
  using assms GET_SIZE_PACK [OF assms(1)] by (auto simp: GET_SIZE_def GET_ALLOC_def)

lemma checkheap_loop_blocks:
  "blocks_at s a bs \<Longrightarrow> unat a mod 8 = 0 \<Longrightarrow> checkheap_loop s False a = Some ([], mem_brk s)"
proof (induction bs arbitrary: a)
  case Nil
  then have e: "GET s (HDRP a) = PACK 0 1" and a: "a = mem_brk s" by auto
  have "GET_SIZE s (HDRP a) = 0"
    using GET_SIZE_of_PACK(1) [of 0 s "HDRP a" 1] e by simp
  then show ?case using a by (subst checkheap_loop.simps) simp
next
  case (Cons blk bs)
  obtain sz al where blk: "blk = (sz, al)" by (cases blk)
  from Cons.prems(1) blk have sz: "unat sz mod 8 = 0" "24 \<le> unat sz"
    and h: "GET s (HDRP a) = PACK sz (if al then 1 else 0)"
    and f: "GET s (a + sz - DSIZE) = PACK sz (if al then 1 else 0)"
    and t: "blocks_at s (a + sz) bs" by simp_all
  from Cons.prems(1) blk have u: "unat (a + sz) = unat a + unat sz"
    using unat_plus_no_wrap [of a sz "mem_brk s"] by simp
  with sz(1) Cons.prems(2) have a': "unat (a + sz) mod 8 = 0" by presburger
  have g: "GET_SIZE s (HDRP a) = sz"
    using GET_SIZE_of_PACK(1) [OF sz(1) h] by simp
  have pos: "GET_SIZE s (HDRP a) > 0"
    unfolding g using sz(2) by (simp add: word_less_nat_alt)
  have n: "NEXT_BLKP s a = a + sz"
    using g by (simp add: NEXT_BLKP_def HDRP_def)
  have ft: "FTRP s a = a + sz - DSIZE" by (simp add: FTRP_def g)
  have cb: "checkblock s a = []"
    using Cons.prems(2) h f by (simp add: checkblock_def ft aligned8_word)
  from Cons.IH [OF t a'] show ?case
    using pos n cb by (subst checkheap_loop.simps) simp
qed

lemma blocks_at_epilogue: "blocks_at s a bs \<Longrightarrow> GET s (HDRP (mem_brk s)) = PACK 0 1"
  by (induction bs arbitrary: a) auto

lemma checkheap_on_well_formed_heap:
  assumes "heap_ok s bs fl"
  shows "mm_checkheap s False = Some [Bad_prologue_header]"
proof -
  let ?hl = "heap_listp s"
  from assms have hl8: "unat ?hl mod 8 = 0"
    and h: "GET s (HDRP ?hl) = PACK (OVERHEAD + 2 * PSIZE) 1"
    and f: "GET s (FTRP s ?hl) = PACK (OVERHEAD + 2 * PSIZE) 1"
    and b: "blocks_at s (?hl + (OVERHEAD + 2 * PSIZE)) bs"
    by (simp_all add: heap_ok_def)
  from assms have u: "unat (?hl + (OVERHEAD + 2 * PSIZE)) = unat ?hl + 24"
    using unat_plus_no_wrap [of ?hl "OVERHEAD + 2 * PSIZE" "mem_brk s"]
    by (simp add: heap_ok_def macro_simps)
  with hl8 have a8: "unat (?hl + (OVERHEAD + 2 * PSIZE)) mod 8 = 0" by presburger
  have c: "OVERHEAD + 2 * PSIZE = (24 :: word32)" by (simp add: macro_simps)
  have g: "GET_SIZE s (HDRP ?hl) = 24" "GET_ALLOC s (HDRP ?hl) = 1"
    using GET_SIZE_of_PACK [of 24 s "HDRP ?hl" 1] h c by simp_all
  have n: "NEXT_BLKP s ?hl = ?hl + (OVERHEAD + 2 * PSIZE)"
    using g by (simp add: NEXT_BLKP_def HDRP_def c)
  have cb: "checkblock s ?hl = []"
    using hl8 h f by (simp add: checkblock_def aligned8_word)
  have l: "checkheap_loop s False ?hl = Some ([], mem_brk s)"
    using checkheap_loop_blocks [OF b a8] g n cb by (subst checkheap_loop.simps) simp
  from b have e: "GET s (HDRP (mem_brk s)) = PACK 0 1"
    by (rule blocks_at_epilogue)
  have ge: "GET_SIZE s (HDRP (mem_brk s)) = 0" "GET_ALLOC s (HDRP (mem_brk s)) = 1"
    using GET_SIZE_of_PACK [of 0 s "HDRP (mem_brk s)" 1] e by simp_all
  show ?thesis
    by (simp add: mm_checkheap_def l g ge cb DSIZE_def)
qed

section \<open>A failed allocation changes nothing\<close>

text \<open>The word below the epilogue header is a footer: of the last block, or of the prologue.\<close>

lemma last_footer:
  "blocks_at s a bs \<Longrightarrow> bs \<noteq> [] \<Longrightarrow>
     \<exists>sz al. GET s (mem_brk s - 8) = PACK sz al \<and> (al = 0 \<or> al = 1) \<and> unat sz mod 8 = 0 \<and>
       24 \<le> unat sz \<and> unat a + unat sz \<le> unat (mem_brk s)"
proof (induction bs arbitrary: a)
  case Nil
  then show ?case by simp
next
  case (Cons blk bs)
  obtain sz al where blk: "blk = (sz, al)" by (cases blk)
  from Cons.prems(1) blk have u: "unat (a + sz) = unat a + unat sz"
    using unat_plus_no_wrap [of a sz "mem_brk s"] by simp
  from Cons.prems(1) blk have t: "blocks_at s (a + sz) bs" by simp
  show ?case
  proof (cases "bs = []")
    case True
    with t have "a + sz = mem_brk s" by simp
    then have "mem_brk s - 8 = a + sz - DSIZE" by (simp add: DSIZE_def)
    with Cons.prems(1) blk u show ?thesis
      by (intro exI [of _ sz] exI [of _ "if al then 1 else 0"]) auto
  next
    case False
    from Cons.IH [OF t False] u show ?thesis by (elim exE) (intro exI, auto)
  qed
qed


lemma below_epilogue:
  assumes "heap_ok s bs fl"
  shows "\<exists>sz al. GET s (mem_brk s - 8) = PACK sz al \<and> (al = 0 \<or> al = 1) \<and> unat sz mod 8 = 0 \<and>
       24 \<le> unat sz \<and> unat (heap_listp s) + unat sz \<le> unat (mem_brk s)"
proof (cases "bs = []")
  case True
  with assms have e: "heap_listp s + (OVERHEAD + 2 * PSIZE) = mem_brk s" 
    and f: "GET s (FTRP s (heap_listp s)) = PACK (OVERHEAD + 2 * PSIZE) 1"
    and h: "GET s (HDRP (heap_listp s)) = PACK (OVERHEAD + 2 * PSIZE) 1"
    and b: "unat (heap_listp s) + 24 \<le> unat (mem_brk s)"
    by (simp_all add: heap_ok_def)
  have c: "OVERHEAD + 2 * PSIZE = (24 :: word32)" by (simp add: macro_simps)
  have "GET_SIZE s (HDRP (heap_listp s)) = 24"
    using GET_SIZE_of_PACK(1) [of 24 s "HDRP (heap_listp s)" 1] h c by simp
  then have "FTRP s (heap_listp s) = heap_listp s + 16" by (simp add: FTRP_def DSIZE_def)
  moreover from e c have "mem_brk s = heap_listp s + 24" by simp
  then have "mem_brk s - 8 = heap_listp s + 16" by simp
  ultimately have "GET s (mem_brk s - 8) = PACK 24 1" using f c by metis
  then show ?thesis using b by (intro exI [of _ 24] exI [of _ 1]) simp
next
  case False
  from assms have b: "blocks_at s (heap_listp s + (OVERHEAD + 2 * PSIZE)) bs"
    by (simp add: heap_ok_def)
  from assms have u: "unat (heap_listp s + (OVERHEAD + 2 * PSIZE)) = unat (heap_listp s) + 24"
    using unat_plus_no_wrap [of "heap_listp s" "OVERHEAD + 2 * PSIZE" "mem_brk s"]
    by (simp add: heap_ok_def macro_simps)
  from last_footer [OF b False] u show ?thesis by (elim exE) (intro exI, auto)
qed

lemma extend_heap_not_NULL:
  assumes ok: "heap_ok s bs fl" and ex: "mem_sbrk s sz = Some (bp, s0)"
    and sz: "sz = (if w mod 2 \<noteq> 0 then (w + 1) * WSIZE else w * WSIZE)"
  shows "fst (extend_heap s w) \<noteq> NULL"
proof -
  from ex have bp: "bp = mem_brk s" and s0: "s0 = s\<lparr>mem_brk := mem_brk s + sz\<rparr>"
    by (auto simp: mem_sbrk_def split: if_splits)
  define z where "z = sz AND NOT 7"
  have z8: "unat z mod 8 = 0"
    unfolding z_def using GET_SIZE_aligned [of "PUT s 0 sz" 0]
    by (simp add: GET_SIZE_def GET_PUT_same)
  have b8: "unat bp mod 8 = 0" unfolding bp by (rule heap_ok_aligned(2) [OF ok])
  from ok have lo: "unat (heap_listp s) + 24 \<le> unat bp" "8 \<le> unat (heap_listp s)"
    by (simp_all add: heap_ok_def bp)
  then have nz: "bp \<noteq> NULL" by auto
  define s1 where "s1 = PUT s0 (bp - 4) (PACK sz 0)"
  define s2 where "s2 = PUT s1 (bp + z - 8) (PACK sz 0)"
  define s3 where "s3 = PUT s2 (bp + z - 4) (PACK 0 1)"
  have q1: "GET_SIZE s1 (bp - 4) = z"
    by (simp add: s1_def GET_SIZE_def GET_PUT_same PACK_free z_def)
  have p2: "FTRP s1 bp = bp + z - 8"
    by (simp add: FTRP_def HDRP_def WSIZE_def DSIZE_def q1)
  have al: "unat (bp - 4) mod 4 = 0" "unat (bp + z - 8) mod 4 = 0" "unat (bp + z - 4) mod 4 = 0"
    "unat (bp - 8) mod 4 = 0"
  proof -
    have a: "unat (bp + z) mod 8 = 0"
      using b8 z8 by (simp add: unat_word_ariths mod_mod_cancel) presburger
    have "unat (4 :: word32) mod 4 = 0" "unat (8 :: word32) mod 4 = 0" by simp_all
    moreover have "unat bp mod 4 = 0" "unat (bp + z) mod 4 = 0" using b8 a by presburger+
    ultimately show "unat (bp - 4) mod 4 = 0" "unat (bp + z - 8) mod 4 = 0"
      "unat (bp + z - 4) mod 4 = 0" "unat (bp - 8) mod 4 = 0"
      by (simp_all add: aligned_sub)
  qed
  have z4: "z \<noteq> 4" "z \<noteq> - 4"
  proof -
    have "unat (- 4 :: word32) = 4294967292" by simp
    with z8 show "z \<noteq> 4" "z \<noteq> - 4" by auto
  qed
  have ne: "bp + z - 8 \<noteq> bp - 4" using z4 by (simp add: algebra_simps) 
  have q2: "GET_SIZE s2 (bp - 4) = z"
    using q1 al ne by (simp add: s2_def GET_SIZE_def GET_PUT_aligned)
  have p3: "HDRP (NEXT_BLKP s2 bp) = bp + z - 4"
    by (simp add: NEXT_BLKP_def HDRP_def WSIZE_def q2)
  have e: "extend_heap s w = coalesce s3 bp"
    unfolding extend_heap_def Let_def sz [symmetric] ex
    by (simp add: HDRP_def [of bp] WSIZE_def s1_def [symmetric] p2 s2_def [symmetric] p3
        s3_def [symmetric])
  have d: "bp - 8 \<noteq> bp - 4" "bp - 8 \<noteq> bp + z - 4" "bp - 8 = bp + z - 8 \<longleftrightarrow> z = 0"
  proof -
    show "bp - 8 \<noteq> bp - 4" by simp
    show "bp - 8 \<noteq> bp + z - 4"
    proof
      assume "bp - 8 = bp + z - 4"
      then have "(bp + z - 4) - (bp - 8) = 0" by (simp only: diff_self)
      moreover have "(bp + z - 4) - (bp - 8) = 4 + z" by simp
      ultimately have "4 + z = 0" by simp
      then have "z = 0 - 4" by (metis add_diff_cancel_left')
      then have "z = - 4" by simp
      with z4 show False by simp
    qed
    show "bp - 8 = bp + z - 8 \<longleftrightarrow> z = 0" by auto
  qed
  have "PREV_BLKP s3 bp \<noteq> NULL"
  proof (cases "z = 0")
    case True
    then have "GET s3 (bp - 8) = PACK sz 0"
      using al d by (simp add: s3_def s2_def GET_PUT_aligned)
    then have "GET_SIZE s3 (bp - 8) = 0"
      using True by (simp add: GET_SIZE_def PACK_free z_def)
    then show ?thesis using nz by (simp add: PREV_BLKP_def DSIZE_def)
  next
    case False
    then have "GET s3 (bp - 8) = GET s0 (bp - 8)"
      using al d by (simp add: s3_def s2_def s1_def GET_PUT_aligned)
    also have "\<dots> = GET s (mem_brk s - 8)" by (simp add: s0 bp GET_update)
    finally have g: "GET s3 (bp - 8) = GET s (mem_brk s - 8)" .
    from below_epilogue [OF ok] obtain sz' al' where
      f: "GET s (mem_brk s - 8) = PACK sz' al'" "al' = 0 \<or> al' = 1" "unat sz' mod 8 = 0"
        "unat (heap_listp s) + unat sz' \<le> unat (mem_brk s)" by auto
    have "GET_SIZE s3 (bp - 8) = sz'"
      using GET_SIZE_of_PACK(1) [OF f(3), of s3 "bp - 8" al'] f(1,2) g by simp
    then have "PREV_BLKP s3 bp = bp - sz'" by (simp add: PREV_BLKP_def DSIZE_def)
    moreover have "unat (bp - sz') = unat bp - unat sz'"
      using f(4) by (intro unat_minus_no_wrap) (simp add: bp)
    ultimately have "unat (PREV_BLKP s3 bp) \<ge> 8" using f(4) lo(2) by (simp add: bp)
    then show ?thesis by auto
  qed
  then show ?thesis using nz by (simp add: e fst_coalesce)
qed


lemma mm_malloc_NULL:
  assumes "heap_ok s bs fl" and "mm_malloc s n = Some (NULL, s')"
  shows "s' = s"
proof (cases "n = 0")
  case True
  with assms(2) show ?thesis by (simp add: mm_malloc_def)
next
  case False
  show ?thesis
  proof (cases "find_fit s (realSize_of n)")
    case None
    with assms(2) False show ?thesis by (simp add: mm_malloc_def Let_def)
  next
    case (Some r)
    show ?thesis
    proof (cases "r = NULL")
      case nn: False
      with Some assms(2) False show ?thesis by (simp add: mm_malloc_def Let_def)
    next
      case True
      show ?thesis
      proof (cases "mem_sbrk s (realSize_of n)")
        case None
        from mm_malloc_refused [OF Some [unfolded True] None] assms(2) show ?thesis by simp
      next
        case sb: (Some r')
        obtain bp s0 where r': "r' = (bp, s0)" by (cases r')
        have "fst (extend_heap s (realSize_of n div WSIZE)) \<noteq> NULL"
          using extend_heap_not_NULL [OF assms(1) sb [unfolded r']] extend_size [of n] by simp
        with Some True assms(2) False show ?thesis
          by (simp add: mm_malloc_def Let_def split_def split: if_splits)
      qed
    qed
  qed
qed

section \<open>Claims about every heap\<close>

text \<open>
  Claim C8. When \<^verbatim>\<open>resize(p, n)\<close> takes the move path and the new allocation fails,
  resize returns nothing and the original block is left intact. The move path is
  taken when the block is too small for the rounded size and the successor is not
  absorbed; the new allocation is \<^verbatim>\<open>mm_malloc(realSize)\<close>. On a well-formed heap, when
  that call returns \<^verbatim>\<open>NULL\<close>, \<^verbatim>\<open>mm_realloc\<close> returns \<^verbatim>\<open>NULL\<close> and the whole state
  (every byte of the heap, so the block's tags and payload too) is what it was before
  the call.
\<close>

theorem failed_move_leaves_the_heap_untouched:
  assumes "heap_ok s bs fl" and "ptr \<noteq> NULL" and "n \<noteq> 0"
    and "GET_SIZE s (HDRP ptr) < realSize_of n"
    and "\<not> (GET_ALLOC s (HDRP (NEXT_BLKP s ptr)) = 0 \<and>
            GET_SIZE s (HDRP (NEXT_BLKP s ptr)) \<ge> GET_SIZE s (HDRP ptr) - realSize_of n)"
    and "mm_malloc s (realSize_of n) = Some (NULL, s')"
  shows "s' = s \<and> mm_realloc s ptr n = Some (NULL, s)"
proof -
  have "s' = s" using assms(1,6) by (rule mm_malloc_NULL)
  moreover have "mm_realloc s ptr n = Some (NULL, s')"
    using assms(2-6) by (simp add: mm_realloc_def Let_def not_le)
  ultimately show ?thesis by simp
qed

text \<open>
  The hypotheses hold for the block of \<^verbatim>\<open>mm_malloc(1)\<close> in an exhausted memory system
  and \<open>n = 100\<close>.
\<close>

theorem failed_move_leaves_the_heap_untouched_witness:
  "heap_ok one_block_full [(32, True)] [] \<and>
   fst one_block \<noteq> NULL \<and> (100 :: word32) \<noteq> 0 \<and>
   GET_SIZE one_block_full (HDRP (fst one_block)) < realSize_of 100 \<and>
   \<not> (GET_ALLOC one_block_full (HDRP (NEXT_BLKP one_block_full (fst one_block))) = 0 \<and>
      GET_SIZE one_block_full (HDRP (NEXT_BLKP one_block_full (fst one_block)))
        \<ge> GET_SIZE one_block_full (HDRP (fst one_block)) - realSize_of 100) \<and>
   mm_malloc one_block_full (realSize_of 100) = Some (NULL, one_block_full) \<and>
   mm_realloc one_block_full (fst one_block) 100 = Some (NULL, one_block_full)"
proof -
  have p: "fst one_block = 0x100020"
    by (simp add: scenario_simps eval_simps)
  have f: "one_block_full =
     (PUT (PUT (PUT (PUT (PUT (PUT (PUT (PUT (PUT (PUT (PUT (PUT (PUT (PUT (PUT fresh
        0x100000 0) 0x100004 25) 0x100008 0) 0x100010 0) 0x100018 25) 0x10001C 1)
        0x10001C 32) 0x100038 32) 0x10003C 1) 0x100020 0) 0x100028 0x100008)
        0x100008 0x100020) 0x100008 0) 0x10001C 33) 0x100038 33)
     \<lparr>heap_listp := 0x100008, mem_brk := 0x100040, mem_max_addr := 0x100040\<rparr>"
    by (simp add: one_block_full_def scenario_simps eval_simps)
  have h0: "heap_ok one_block_full [(32, True)] []"
    by (simp add: heap_ok_def f eval_simps GET_update_max PUT_update_max)
  have h1: "fst one_block \<noteq> NULL" by (simp add: p)
  have h3: "GET_SIZE one_block_full (HDRP (fst one_block)) < realSize_of 100"
    by (simp add: p f eval_simps GET_update_max PUT_update_max)
  have h4: "\<not> (GET_ALLOC one_block_full (HDRP (NEXT_BLKP one_block_full (fst one_block))) = 0 \<and>
      GET_SIZE one_block_full (HDRP (NEXT_BLKP one_block_full (fst one_block)))
        \<ge> GET_SIZE one_block_full (HDRP (fst one_block)) - realSize_of 100)"
    by (simp add: p f eval_simps GET_update_max PUT_update_max)
  have h5: "mm_malloc one_block_full (realSize_of 100) = Some (NULL, one_block_full)"
    unfolding f by (simp add: eval_simps GET_update_max PUT_update_max)
  from failed_move_leaves_the_heap_untouched [OF h0 h1 _ h3 h4 h5] h0 h1 h3 h4 h5
  show ?thesis by simp
qed

text \<open>
  Claim C10. Right after a successful \<^verbatim>\<open>init()\<close> the free list is empty (the
  sentinel's forward link is \<^verbatim>\<open>NULL\<close>) and the heap holds no free block: the allocated
  prologue is followed at once by the epilogue. So every search of the free list
  fails, a first allocation of a nonzero size is whatever heap extension makes of it,
  and when the memory system refuses the extension \<^verbatim>\<open>mm_malloc\<close> returns \<^verbatim>\<open>NULL\<close> and
  leaves the heap as it is.
\<close>

theorem first_allocation_goes_through_heap_extension:
  assumes "mm_init s0 = (0, s)"
  shows "NEXT_BLKP_EX s (heap_listp s) = NULL \<and>
         GET s (HDRP (heap_listp s)) = PACK (OVERHEAD + 2 * PSIZE) 1 \<and>
         GET s (HDRP (NEXT_BLKP s (heap_listp s))) = PACK 0 1 \<and>
         (\<forall>asize. find_fit s asize = Some NULL) \<and>
         (\<forall>n. n \<noteq> 0 \<longrightarrow>
            mm_malloc s n =
              (case extend_heap s (realSize_of n div WSIZE) of
                 (bp, s1) \<Rightarrow> if bp = NULL then Some (NULL, s1)
                             else Some (bp, place s1 bp (realSize_of n)))) \<and>
         (\<forall>n. n \<noteq> 0 \<longrightarrow> mem_sbrk s (realSize_of n) = None \<longrightarrow> mm_malloc s n = Some (NULL, s))"
proof -
  note h = mm_init_heap [OF assms]
  have f: "find_fit s asize = Some NULL" for asize
    using h(1) by (rule find_fit_empty)
  have "GET s (HDRP (heap_listp s)) = PACK (OVERHEAD + 2 * PSIZE) 1"
    using h(2) by (simp add: macro_simps)
  moreover have "mm_malloc s n = Some (NULL, s)"
    if "n \<noteq> 0" "mem_sbrk s (realSize_of n) = None" for n
    using f that(2) by (rule mm_malloc_refused)
  moreover have "mm_malloc s n =
      (case extend_heap s (realSize_of n div WSIZE) of
         (bp, s1) \<Rightarrow> if bp = NULL then Some (NULL, s1)
                     else Some (bp, place s1 bp (realSize_of n)))" if "n \<noteq> 0" for n
    using that f by (simp add: mm_malloc_def Let_def split_def)
  ultimately show ?thesis using h(1,3) f by blast
qed

text \<open>
  In the memory system with room for \<^verbatim>\<open>mm_init\<close> only, \<^verbatim>\<open>mm_init\<close> succeeds and
  \<^verbatim>\<open>mm_malloc(1)\<close> returns \<^verbatim>\<open>NULL\<close>.
\<close>

theorem first_allocation_goes_through_heap_extension_witness:
  "mm_init tight = (0, snd (mm_init tight)) \<and>
   mem_sbrk (snd (mm_init tight)) (realSize_of 1) = None \<and>
   find_fit (snd (mm_init tight)) (realSize_of 1) = Some NULL \<and>
   mm_malloc (snd (mm_init tight)) 1 = Some (NULL, snd (mm_init tight))"
proof -
  have r: "mem_sbrk (snd (mm_init tight)) (realSize_of 1) = None"
    by (simp add: tight_def mm_init_def mem_sbrk_def fresh_def PUT_fields PUT_ADDR_eq_PUT
        Let_def macro_simps)
  note t = first_allocation_goes_through_heap_extension [OF tight_init]
  from t have "find_fit (snd (mm_init tight)) (realSize_of 1) = Some NULL" by blast
  moreover from t have "\<forall>n. n \<noteq> 0 \<longrightarrow> mem_sbrk (snd (mm_init tight)) (realSize_of n) = None \<longrightarrow>
      mm_malloc (snd (mm_init tight)) n = Some (NULL, snd (mm_init tight))" by blast
  with r have "mm_malloc (snd (mm_init tight)) 1 = Some (NULL, snd (mm_init tight))"
    by simp
  ultimately show ?thesis using r tight_init by simp
qed

text \<open>
  Claim C4 (corrected). The claim: for a free block of size \<open>c\<close> that the placement
  policy located and a requested size \<open>a \<le> c\<close>, \<^verbatim>\<open>place\<close> splits exactly when the
  remainder \<open>c - a\<close> is at least one minimum block size, which is enough to hold header,
  footer and two link fields. Header and footer take \<^verbatim>\<open>OVERHEAD = 8\<close> bytes and the two
  links \<^verbatim>\<open>2 * PSIZE = 16\<close>, which makes 24 bytes; the threshold of \<^verbatim>\<open>place\<close> is
  \<^verbatim>\<open>DSIZE + 2 * PSIZE + OVERHEAD = 32\<close>, the size of the smallest block \<^verbatim>\<open>mm_malloc\<close>
  makes. On the free block of 56 bytes, which \<^verbatim>\<open>find_fit\<close> returns for a request of 32,
  the remainder is 24 bytes, and \<^verbatim>\<open>place\<close> does not split: the whole block is marked
  allocated at 56 bytes and the free list is empty afterwards.
\<close>

theorem place_keeps_a_remainder_of_24_bytes:
  "(let p = fst block56; s = free56 in
      find_fit s 32 = Some p \<and> GET s (HDRP p) = PACK 56 0 \<and>
      OVERHEAD + 2 * PSIZE \<le> 56 - (32 :: word32) \<and>
      GET (place s p 32) (HDRP p) = PACK 56 1 \<and>
      GET (place s p 32) (FTRP (place s p 32) p) = PACK 56 1 \<and>
      NEXT_BLKP_EX (place s p 32) (heap_listp (place s p 32)) = NULL)"
  by (simp add: scenario_simps eval_simps)

text \<open>
  Claim C4 as amended: on a well-formed heap, for a free block \<open>bp\<close> that \<^verbatim>\<open>find_fit\<close>
  returned for the size \<open>a\<close> (a nonzero multiple of 8), the block's size \<open>c\<close> is at least
  \<open>a\<close>, and \<^verbatim>\<open>place\<close> splits exactly when \<open>c - a\<close> is at least
  \<^verbatim>\<open>DSIZE + 2 * PSIZE + OVERHEAD = 32\<close> bytes. When it splits, header and footer of \<open>bp\<close>
  say "\<open>a\<close> bytes, allocated", the next block starts at \<open>bp + a\<close>, its header and footer
  say "\<open>c - a\<close> bytes, free", and it is the head of the free list. Otherwise header and
  footer of \<open>bp\<close> say "\<open>c\<close> bytes, allocated".
\<close>

theorem place_splits_when_32_bytes_remain:
  assumes "heap_ok s bs fl" and "find_fit s asize = Some bp" and "bp \<noteq> NULL"
    and "unat asize mod 8 = 0" and "asize \<noteq> 0"
  shows "(let csize = GET_SIZE s (HDRP bp); s' = place s bp asize; r = NEXT_BLKP s' bp in
          asize \<le> csize \<and>
          (if DSIZE + 2 * PSIZE + OVERHEAD \<le> csize - asize
           then GET s' (HDRP bp) = PACK asize 1 \<and> GET s' (FTRP s' bp) = PACK asize 1 \<and>
                r = bp + asize \<and>
                GET s' (HDRP r) = PACK (csize - asize) 0 \<and>
                GET s' (FTRP s' r) = PACK (csize - asize) 0 \<and>
                NEXT_BLKP_EX s' (heap_listp s') = r
           else GET s' (HDRP bp) = PACK csize 1 \<and> GET s' (FTRP s' bp) = PACK csize 1))"
proof -
  from assms(1) have "chain s (heap_listp s) fl" by (simp add: heap_ok_def)
  from find_fit_loop_fits [OF this assms(2) [unfolded find_fit_def] assms(3)]
  have m: "bp \<in> set fl" and le: "asize \<le> GET_SIZE s (HDRP bp)" by simp_all
  show ?thesis
  proof (cases "DSIZE + 2 * PSIZE + OVERHEAD \<le> GET_SIZE s (HDRP bp) - asize")
    case True
    from place_split [OF assms(1) m assms(4,5) le True] le True show ?thesis
      by (simp add: Let_def)
  next
    case False
    from place_whole [OF assms(1) m False] le False show ?thesis
      by (simp add: Let_def)
  qed
qed

text \<open>
  The heap with the one free block of 56 bytes is well-formed; for a request of 24
  bytes \<^verbatim>\<open>find_fit\<close> returns that block, 32 bytes remain, and \<^verbatim>\<open>place\<close> splits.
\<close>

theorem place_splits_when_32_bytes_remain_witness:
  "heap_ok free56 [(56, False)] [0x100020] \<and> find_fit free56 24 = Some 0x100020 \<and>
   (0x100020 :: addr) \<noteq> NULL \<and> unat (24 :: word32) mod 8 = 0 \<and> (24 :: word32) \<noteq> 0 \<and>
   GET_SIZE free56 (HDRP 0x100020) = 56 \<and>
   DSIZE + 2 * PSIZE + OVERHEAD \<le> (56 :: word32) - 24 \<and>
   GET (place free56 0x100020 24) (HDRP 0x100020) = PACK 24 1 \<and>
   NEXT_BLKP (place free56 0x100020 24) 0x100020 = 0x100020 + 24 \<and>
   GET (place free56 0x100020 24) (HDRP (NEXT_BLKP (place free56 0x100020 24) 0x100020)) =
     PACK (56 - 24) 0"
proof -
  have h: "heap_ok free56 [(56, False)] [0x100020]"
    by (simp add: heap_ok_def scenario_simps eval_simps)
  have f: "find_fit free56 24 = Some 0x100020"
    by (simp add: scenario_simps eval_simps)
  have c: "GET_SIZE free56 (HDRP 0x100020) = 56"
    by (simp add: scenario_simps eval_simps)
  have d: "DSIZE + 2 * PSIZE + OVERHEAD \<le> (56 :: word32) - 24"
    by (simp add: macro_simps)
  have n: "(0x100020 :: addr) \<noteq> NULL" "unat (24 :: word32) mod 8 = 0" "(24 :: word32) \<noteq> 0"
    by simp_all
  note t = place_splits_when_32_bytes_remain [OF h f n, unfolded Let_def c if_P [OF d]]
  from t have "GET (place free56 0x100020 24) (HDRP 0x100020) = PACK 24 1"
    and "NEXT_BLKP (place free56 0x100020 24) 0x100020 = 0x100020 + 24"
    and "GET (place free56 0x100020 24) (HDRP (NEXT_BLKP (place free56 0x100020 24) 0x100020)) =
     PACK (56 - 24) 0" by blast+
  with h f c d n show ?thesis by blast
qed

section \<open>Claims about behaviour on concrete heaps\<close>

text \<open>
  Claim C1 (the code differs). The claim: for an allocated block \<open>p\<close>, \<^verbatim>\<open>resize(p, 0)\<close> is
  equivalent to \<^verbatim>\<open>deallocate(p)\<close>: the block is marked free, coalesced and reinserted into
  the allocator's free list, and nothing is returned. The code returns nothing but
  hands the pointer to the C library's \<^verbatim>\<open>free\<close> instead of \<^verbatim>\<open>mm_free\<close>: for the block
  of \<^verbatim>\<open>mm_malloc(1)\<close> the allocator's state is what it was, the block's header still says
  "32 bytes, allocated" and the free list is still empty, whereas \<^verbatim>\<open>mm_free\<close> on the
  same state clears the allocated bit and puts the block at the head of the list.
\<close>

theorem resize_to_zero_does_not_deallocate:
  "(let p = fst one_block; s = snd one_block in
      mm_realloc s p 0 = Some (NULL, s) \<and>
      GET s (HDRP p) = PACK 32 1 \<and>
      NEXT_BLKP_EX s (heap_listp s) = NULL \<and>
      GET (mm_free s p) (HDRP p) = PACK 32 0 \<and>
      NEXT_BLKP_EX (mm_free s p) (heap_listp (mm_free s p)) = p)"
  by (simp add: scenario_simps eval_simps)

text \<open>
  Claim C2 (the code differs). The claim: on a well-formed heap, in particular the one
  \<^verbatim>\<open>init()\<close> builds, \<^verbatim>\<open>check()\<close> reports no violation, its sentinel test accepting the
  prologue that \<^verbatim>\<open>init()\<close> wrote. \<^verbatim>\<open>mm_init\<close> writes a prologue of
  \<^verbatim>\<open>OVERHEAD + 2 * PSIZE = 24\<close> bytes; \<^verbatim>\<open>mm_checkheap\<close> compares its size with
  \<^verbatim>\<open>DSIZE = 8\<close>, so on the heap right after \<^verbatim>\<open>mm_init\<close> it prints "Bad prologue
  header" (and nothing else when not verbose; by \<open>checkheap_on_well_formed_heap\<close> it
  prints just this line on every well-formed heap).
\<close>

theorem checker_rejects_the_prologue_of_init:
  "GET heap0 (HDRP (heap_listp heap0)) = PACK (OVERHEAD + 2 * PSIZE) 1 \<and>
   mm_checkheap heap0 False = Some [Bad_prologue_header] \<and>
   mm_checkheap heap0 True =
     Some [Heap_line 0x100008, Bad_prologue_header, Block_line 0x100008 24 True 24 True,
           EOL_line 0x100020]"
  by (simp add: scenario_simps eval_simps mm_checkheap_def checkheap_loop.simps checkblock_def
      printblock_def)

text \<open>
  Claim C3 (the code differs). The claim: when the block \<open>p\<close> is too small for the new
  size but its physical successor is free and the two together are large enough,
  \<^verbatim>\<open>resize(p, n)\<close> absorbs the successor and returns \<open>p\<close>. In the code
  \<^verbatim>\<open>remainSize = GET_SIZE(HDRP(ptr)) - realSize\<close> has wrapped around when the block is too
  small, and the successor's size is compared with that huge number. Here \<open>p\<close> is an
  allocated block of 32 bytes, its successor \<open>q\<close> a free block of 32 bytes on the free
  list, and \<^verbatim>\<open>mm_realloc(p, 12)\<close> needs 40 bytes: it does not return \<open>p\<close> but moves the
  block to \<open>q\<close>.
\<close>

theorem resize_moves_although_the_successor_fits:
  "(let p = fst one_block; s = second_freed; q = NEXT_BLKP s p in
      GET s (HDRP p) = PACK 32 1 \<and> GET s (HDRP q) = PACK 32 0 \<and>
      NEXT_BLKP_EX s (heap_listp s) = q \<and>
      realSize_of 12 = 40 \<and>
      map_option fst (mm_realloc s p 12) = Some q \<and> q = p + 32)"
  by (simp add: scenario_simps eval_simps)

text \<open>
  Claim C5 (the code differs). The claim: after every public operation, the
  shrink-in-place path of resize included, no free block has a free physical
  neighbour. \<^verbatim>\<open>mm_free\<close> and \<^verbatim>\<open>extend_heap\<close> hand every block they free to
  \<^verbatim>\<open>coalesce\<close>; the shrink-in-place path of \<^verbatim>\<open>mm_realloc\<close> inserts the remainder without
  it. Here \<open>p\<close> is an allocated block of 128 bytes followed by a free block of 32 bytes
  and the epilogue; \<^verbatim>\<open>mm_realloc(p, 1)\<close> returns \<open>p\<close>, shrunk to 32 bytes, and leaves a free
  remainder \<open>r\<close> of 96 bytes whose physical successor \<open>q\<close> is the free block of 32 bytes.
\<close>

theorem shrink_in_place_leaves_two_adjacent_free_blocks:
  "(let p = fst large_block; s = large_then_free;
        s' = snd (the (mm_realloc s p 1));
        r = NEXT_BLKP s' p; q = NEXT_BLKP s' r in
      GET s (HDRP p) = PACK 128 1 \<and> GET s (HDRP (NEXT_BLKP s p)) = PACK 32 0 \<and>
      GET s (HDRP (NEXT_BLKP s (NEXT_BLKP s p))) = PACK 0 1 \<and>
      map_option fst (mm_realloc s p 1) = Some p \<and>
      GET s' (HDRP p) = PACK 32 1 \<and>
      GET s' (HDRP r) = PACK 96 0 \<and> GET s' (HDRP q) = PACK 32 0 \<and>
      r = p + 32 \<and> q = r + 96)"
  by (simp add: scenario_simps eval_simps)

text \<open>
  Claim C6 (the code differs). The claim: \<^verbatim>\<open>resize(nothing, n)\<close> behaves exactly as
  \<^verbatim>\<open>allocate(n)\<close>, for \<open>n = 0\<close> too. The code calls \<^verbatim>\<open>mm_malloc(realSize)\<close>, with the size
  it has already rounded up, not \<^verbatim>\<open>mm_malloc(size)\<close>. On the initial heap
  \<^verbatim>\<open>mm_malloc(0)\<close> returns \<^verbatim>\<open>NULL\<close> and changes nothing, while \<^verbatim>\<open>mm_realloc(NULL, 0)\<close>
  returns a block of 48 bytes; \<^verbatim>\<open>mm_malloc(1)\<close> returns a block of 32 bytes and
  \<^verbatim>\<open>mm_realloc(NULL, 1)\<close> one of 56.
\<close>

theorem resize_of_nothing_is_not_allocate:
  "mm_malloc heap0 0 = Some (NULL, heap0) \<and>
   map_option fst (mm_realloc heap0 NULL 0) = Some 0x100020 \<and>
   map_option (\<lambda>(p, s). GET s (HDRP p)) (mm_realloc heap0 NULL 0) = Some (PACK 48 1) \<and>
   map_option (\<lambda>(p, s). GET s (HDRP p)) (mm_malloc heap0 1) = Some (PACK 32 1) \<and>
   map_option (\<lambda>(p, s). GET s (HDRP p)) (mm_realloc heap0 NULL 1) = Some (PACK 56 1)"
  by (simp add: scenario_simps eval_simps)

text \<open>
  Claim C7 (the code differs). The claim: for every allocated block \<open>p\<close> and every size
  \<open>n\<close>, when \<^verbatim>\<open>resize(p, n)\<close> succeeds the first \<open>min(old payload size, n)\<close> bytes read
  through the returned pointer are the bytes the caller wrote. The rounding of the
  size is done without a check for overflow: for \<open>n = 0xFFFFFFE1\<close> the rounded size is
  \<open>0\<close>, the shrink-in-place path "splits" the block of 40 bytes at offset \<open>0\<close>, marks it
  free and inserts it into the free list, and returns \<open>p\<close>. The first word of the
  payload, \<open>0x11111111\<close> before, now holds the list's old head \<^verbatim>\<open>NULL\<close>, and the third,
  \<open>0x22222222\<close> before, holds \<^verbatim>\<open>heap_listp\<close>.
\<close>

theorem resize_by_a_huge_size_overwrites_the_payload:
  "(let p = fst written_block; s = snd written_block;
        s' = snd (the (mm_realloc s p 0xFFFFFFE1)) in
      GET s (HDRP p) = PACK 40 1 \<and> GET s p = 0x11111111 \<and> GET s (p + 8) = 0x22222222 \<and>
      realSize_of 0xFFFFFFE1 = 0 \<and>
      map_option fst (mm_realloc s p 0xFFFFFFE1) = Some p \<and>
      GET s' p = NULL \<and> GET s' (p + 8) = heap_listp s' \<and> GET s' (HDRP p) = PACK 40 0)"
  by (simp add: scenario_simps eval_simps)

text \<open>
  Claim C9 (the code differs). The claim: every pointer returned by a successful
  allocate or resize is double-word aligned, its address \<open>0\<close> modulo \<open>8\<close>. The code
  rounds every block size up to a multiple of \<^verbatim>\<open>DSIZE\<close> to keep block pointers
  aligned, but without a check for overflow, the defect that overwrites the payload
  in the theorem above. Here the caller holds \<open>p\<close> and \<open>q\<close>, 24 bytes each, in
  blocks of 48 bytes; \<open>p\<close> is aligned.
  \<^verbatim>\<open>mm_realloc(p, 0xFFFFFFE1)\<close> rounds the size to \<open>0\<close>, succeeds and returns \<open>p\<close>, with
  the block marked free and at the head of the free list, so that the words the
  caller stores at \<open>p\<close> are now the list's links. After the stores of \<open>caller_stores\<close>,
  all within the 24 bytes at \<open>p\<close>, \<^verbatim>\<open>mm_malloc(25)\<close> needs 56 bytes, passes by \<open>p\<close>
  (48 bytes), follows its forward link and returns \<open>p + 12\<close>, marked allocated with
  56 bytes: an address that is \<open>4\<close> modulo \<open>8\<close>.
\<close>

theorem resize_by_a_huge_size_makes_allocate_return_a_misaligned_pointer:
  "(let p = fst held_block; s = snd held_pair; s' = snd wrapped_resize;
        r = the (mm_malloc caller_stores 25) in
      p mod 8 = 0 \<and> GET s (HDRP p) = PACK 48 1 \<and>
      realSize_of 0xFFFFFFE1 = 0 \<and>
      map_option fst (mm_realloc s p 0xFFFFFFE1) = Some p \<and>
      GET s' (HDRP p) = PACK 48 0 \<and> NEXT_BLKP_EX s' (heap_listp s') = p \<and>
      realSize_of 25 = 56 \<and>
      map_option fst (mm_malloc caller_stores 25) = Some (p + 12) \<and>
      GET (snd r) (HDRP (fst r)) = PACK 56 1 \<and>
      fst r mod 8 = 4)"
  by (simp add: held_block_eq held_pair_eq wrapped_resize_eq caller_stores_eq eval_simps)

end
